theory Spec2Isabelle
  imports Main "HOL-Library.Sublist"
begin

section \<open>Python values\<close>

text \<open>
  A Python \<open>str\<close> is modelled by its UTF-8 encoding, a \<open>string\<close> (list of bytes).
  The program only concatenates strings, compares them, looks for ASCII delimiters and
  tests substrings; all of these commute with the encoding.

  The values that flow through the program are the ones \<open>json.loads\<close> produces.  A number
  is kept as the literal that was read (\<open>JNum\<close>): the program never computes with numbers,
  it only compares values with strings and tests truthiness.  Python's \<open>None\<close> is \<open>JNull\<close>.
  A \<open>dict\<close> is an association list with distinct keys in insertion order.
\<close>

datatype json =
    JNull
  | JBool bool
  | JNum string
  | JStr string
  | JArr "json list"
  | JObj "(string \<times> json) list"

datatype exc =
    KeyError
  | IndexError
  | TypeError
  | AttributeError
  | FileNotFoundError
  | PermissionError
  | IsADirectoryError
  | UnicodeDecodeError

text \<open>\<open>d[k] = v\<close> on a dict: an existing key keeps its position.\<close>

fun dict_set :: "(string \<times> json) list \<Rightarrow> string \<Rightarrow> json \<Rightarrow> (string \<times> json) list" where
  "dict_set [] k v = [(k, v)]"
| "dict_set ((k', v') # d) k v = (if k' = k then (k, v) # d else (k', v') # dict_set d k v)"

text \<open>\<open>x.get(k, default)\<close> with a string key: only a dict has the method.\<close>

definition py_get :: "json \<Rightarrow> string \<Rightarrow> json \<Rightarrow> exc + json" where
  "py_get x k dflt =
     (case x of
        JObj d \<Rightarrow> (case map_of d k of None \<Rightarrow> Inr dflt | Some v \<Rightarrow> Inr v)
      | _ \<Rightarrow> Inl AttributeError)"


text \<open>The first character of a string: the lead byte and its continuation bytes.\<close>

definition is_continuation :: "char \<Rightarrow> bool" where
  "is_continuation c \<longleftrightarrow> (0x80::nat) \<le> of_char c \<and> of_char c < (0xC0::nat)"

definition first_char :: "string \<Rightarrow> string" where
  "first_char s = (case s of [] \<Rightarrow> [] | c # cs \<Rightarrow> c # takeWhile is_continuation cs)"

text \<open>\<open>x[k]\<close> with a string key.\<close>

definition py_item :: "json \<Rightarrow> string \<Rightarrow> exc + json" where
  "py_item x k =
     (case x of
        JObj d \<Rightarrow> (case map_of d k of None \<Rightarrow> Inl KeyError | Some v \<Rightarrow> Inr v)
      | _ \<Rightarrow> Inl TypeError)"

text \<open>\<open>x[0]\<close>.  A dict read from JSON has string keys only, so \<open>0\<close> is never a key.\<close>

definition py_item0 :: "json \<Rightarrow> exc + json" where
  "py_item0 x =
     (case x of
        JArr [] \<Rightarrow> Inl IndexError
      | JArr (v # _) \<Rightarrow> Inr v
      | JStr s \<Rightarrow> (if s = [] then Inl IndexError else Inr (JStr (first_char s)))
      | JObj _ \<Rightarrow> Inl KeyError
      | _ \<Rightarrow> Inl TypeError)"

text \<open>Truthiness (\<open>if x\<close>, \<open>not x\<close>).  A number literal is falsy when it denotes zero.\<close>

definition num_is_zero :: "string \<Rightarrow> bool" where
  "num_is_zero lit \<longleftrightarrow>
     (let mant = takeWhile (\<lambda>c. c \<noteq> CHR ''e'' \<and> c \<noteq> CHR ''E'') lit
      in mant \<noteq> [] \<and> (\<forall>c \<in> set mant. c = CHR ''0'' \<or> c = CHR ''.'' \<or> c = CHR ''-''))"

fun truthy :: "json \<Rightarrow> bool" where
  "truthy JNull = False"
| "truthy (JBool b) = b"
| "truthy (JNum lit) = (\<not> num_is_zero lit)"
| "truthy (JStr s) = (s \<noteq> [])"
| "truthy (JArr xs) = (xs \<noteq> [])"
| "truthy (JObj d) = (d \<noteq> [])"

text \<open>
  \<open>str(x)\<close>, as the f-strings apply it.  For a number, a list or a dict the text is Python's
  \<open>repr\<close>, which is not modelled: it is the parameter \<open>repr\<close>.
\<close>

definition py_str :: "(json \<Rightarrow> string) \<Rightarrow> json \<Rightarrow> string" where
  "py_str repr x =
     (case x of
        JStr s \<Rightarrow> s
      | JNull \<Rightarrow> ''None''
      | JBool b \<Rightarrow> (if b then ''True'' else ''False'')
      | _ \<Rightarrow> repr x)"

section \<open>The JSON decoder (\<open>json.loads\<close>)\<close>

text \<open>
  The decoder of the standard library, function by function: \<open>scanstring\<close>, the number
  matcher, \<open>scan_once\<close> with the object and array parsers, and \<open>decode\<close>, which skips
  surrounding whitespace and refuses extra data.  \<open>None\<close> stands for \<open>JSONDecodeError\<close>.
\<close>

definition is_ws :: "char \<Rightarrow> bool" where
  "is_ws c \<longleftrightarrow> c = CHR '' '' \<or> c = CHR 0x09 \<or> c = CHR 0x0A \<or> c = CHR 0x0D"

definition skip_ws :: "string \<Rightarrow> string" where
  "skip_ws s = dropWhile is_ws s"

definition is_digit :: "char \<Rightarrow> bool" where
  "is_digit c \<longleftrightarrow> (48::nat) \<le> of_char c \<and> of_char c \<le> (57::nat)"

definition hex_val :: "char \<Rightarrow> nat option" where
  "hex_val c =
     (let n = (of_char c :: nat) in
      if 48 \<le> n \<and> n \<le> 57 then Some (n - 48)
      else if 97 \<le> n \<and> n \<le> 102 then Some (n - 87)
      else if 65 \<le> n \<and> n \<le> 70 then Some (n - 55)
      else None)"

definition hex4 :: "char \<Rightarrow> char \<Rightarrow> char \<Rightarrow> char \<Rightarrow> nat option" where
  "hex4 a b c d =
     (case (hex_val a, hex_val b, hex_val c, hex_val d) of
        (Some w, Some x, Some y, Some z) \<Rightarrow> Some (((w * 16 + x) * 16 + y) * 16 + z)
      | _ \<Rightarrow> None)"

definition is_high_surrogate :: "nat \<Rightarrow> bool" where
  "is_high_surrogate u \<longleftrightarrow> 0xD800 \<le> u \<and> u \<le> 0xDBFF"

definition is_low_surrogate :: "nat \<Rightarrow> bool" where
  "is_low_surrogate u \<longleftrightarrow> 0xDC00 \<le> u \<and> u \<le> 0xDFFF"

definition join_surrogates :: "nat \<Rightarrow> nat \<Rightarrow> nat" where
  "join_surrogates hi lo = 0x10000 + (hi - 0xD800) * 0x400 + (lo - 0xDC00)"

text \<open>The bytes of a code point (a lone surrogate gets the three-byte form).\<close>

definition utf8 :: "nat \<Rightarrow> string" where
  "utf8 u =
     (if u < 0x80 then [char_of u]
      else if u < 0x800 then [char_of (0xC0 + u div 64), char_of (0x80 + u mod 64)]
      else if u < 0x10000 then
        [char_of (0xE0 + u div 4096), char_of (0x80 + (u div 64) mod 64), char_of (0x80 + u mod 64)]
      else
        [char_of (0xF0 + u div 262144), char_of (0x80 + (u div 4096) mod 64),
         char_of (0x80 + (u div 64) mod 64), char_of (0x80 + u mod 64)])"

text \<open>The one-letter escapes after a backslash.\<close>

definition unescape :: "char \<Rightarrow> char option" where
  "unescape e =
     (if e = CHR 0x22 then Some (CHR 0x22)
      else if e = CHR 0x5C then Some (CHR 0x5C)
      else if e = CHR ''/'' then Some (CHR ''/'')
      else if e = CHR ''b'' then Some (CHR 0x08)
      else if e = CHR ''f'' then Some (CHR 0x0C)
      else if e = CHR ''n'' then Some (CHR 0x0A)
      else if e = CHR ''r'' then Some (CHR 0x0D)
      else if e = CHR ''t'' then Some (CHR 0x09)
      else None)"

text \<open>
  A backslash escape, from just after the backslash: the bytes it stands for and the
  input after it.  A high surrogate followed by another \<open>\u\<close> escape is joined with it
  when that one is a low surrogate; when its four digits are not hexadecimal the string
  is refused.
\<close>

definition scan_escape :: "string \<Rightarrow> (string \<times> string) option" where
  "scan_escape cs =
     (case cs of
        [] \<Rightarrow> None
      | e # r \<Rightarrow>
          if e = CHR ''u'' then
            (case r of
               h1 # h2 # h3 # h4 # r1 \<Rightarrow>
                 (case hex4 h1 h2 h3 h4 of
                    None \<Rightarrow> None
                  | Some u \<Rightarrow>
                      if is_high_surrogate u then
                        (case r1 of
                           b # x # l1 # l2 # l3 # l4 # r2 \<Rightarrow>
                             if b = CHR 0x5C \<and> x = CHR ''u'' then
                               (case hex4 l1 l2 l3 l4 of
                                  None \<Rightarrow> None
                                | Some u2 \<Rightarrow>
                                    if is_low_surrogate u2
                                    then Some (utf8 (join_surrogates u u2), r2)
                                    else Some (utf8 u, r1))
                             else Some (utf8 u, r1)
                         | _ \<Rightarrow> Some (utf8 u, r1))
                      else Some (utf8 u, r1))
             | _ \<Rightarrow> None)
          else
            (case unescape e of
               None \<Rightarrow> None
             | Some ch \<Rightarrow> Some ([ch], r)))"

definition emit :: "string \<Rightarrow> (string \<times> string) option \<Rightarrow> (string \<times> string) option" where
  "emit bs x = (case x of None \<Rightarrow> None | Some (t, q) \<Rightarrow> Some (bs @ t, q))"

text \<open>
  \<open>scanstring\<close> in strict mode, from just after the opening quote: the decoded string and
  the input after the closing quote.  A control character is refused.
\<close>

function scanstring :: "string \<Rightarrow> (string \<times> string) option" where
  "scanstring [] = None"
| "scanstring (c # cs) =
     (if c = CHR 0x22 then Some ([], cs)
      else if c = CHR 0x5C then
        (case scan_escape cs of
           None \<Rightarrow> None
         | Some (bs, r) \<Rightarrow> emit bs (scanstring r))
      else if (of_char c :: nat) \<le> 0x1F then None
      else emit [c] (scanstring cs))"
  by pat_completeness auto
termination
  by (relation "measure length")
     (auto simp: scan_escape_def split: list.splits option.splits if_splits)

text \<open>
  The number matcher: an optional minus, \<open>0\<close> or a digit run without leading zero, an
  optional fraction (a dot followed by at least one digit), an optional exponent (which is
  given back when no digit follows).  It returns the literal and the rest of the input.
\<close>

definition match_integer :: "string \<Rightarrow> (string \<times> string) option" where
  "match_integer s =
     (let (sg, s1) = (case s of
                        [] \<Rightarrow> ([], s)
                      | c # cs \<Rightarrow> if c = CHR ''-'' then ([c], cs) else ([], s))
      in case s1 of
           [] \<Rightarrow> None
         | c # cs \<Rightarrow>
             if is_digit c \<and> c \<noteq> CHR ''0''
             then Some (sg @ c # takeWhile is_digit cs, dropWhile is_digit cs)
             else if c = CHR ''0'' then Some (sg @ [c], cs)
             else None)"

definition match_fraction :: "string \<Rightarrow> string \<times> string" where
  "match_fraction s =
     (case s of
        d # x # xs \<Rightarrow>
          if d = CHR ''.'' \<and> is_digit x
          then (d # x # takeWhile is_digit xs, dropWhile is_digit xs)
          else ([], s)
      | _ \<Rightarrow> ([], s))"

definition match_exponent :: "string \<Rightarrow> string \<times> string" where
  "match_exponent s =
     (case s of
        [] \<Rightarrow> ([], s)
      | e # xs \<Rightarrow>
          if e = CHR ''e'' \<or> e = CHR ''E'' then
            (let (sg, ys) = (case xs of
                               [] \<Rightarrow> ([], xs)
                             | y # ys' \<Rightarrow>
                                 if y = CHR ''-'' \<or> y = CHR ''+'' then ([y], ys') else ([], xs));
                 ds = takeWhile is_digit ys
             in if ds = [] then ([], s) else (e # sg @ ds, dropWhile is_digit ys))
          else ([], s))"

definition match_number :: "string \<Rightarrow> (string \<times> string) option" where
  "match_number s =
     (case match_integer s of
        None \<Rightarrow> None
      | Some (i, r) \<Rightarrow>
          (let (f, r1) = match_fraction r; (e, r2) = match_exponent r1
           in Some (i @ f @ e, r2)))"

definition strip_prefix :: "string \<Rightarrow> string \<Rightarrow> string option" where
  "strip_prefix p s = (if take (length p) s = p then Some (drop (length p) s) else None)"

text \<open>The values that are neither a string, an object nor an array.\<close>

definition constants :: "(string \<times> json) list" where
  "constants =
     [(''null'', JNull), (''true'', JBool True), (''false'', JBool False),
      (''NaN'', JNum ''NaN''), (''Infinity'', JNum ''Infinity''),
      (''-Infinity'', JNum ''-Infinity'')]"

fun scan_constant :: "(string \<times> json) list \<Rightarrow> string \<Rightarrow> (json \<times> string) option" where
  "scan_constant [] s = None"
| "scan_constant ((word, v) # ws) s =
     (case strip_prefix word s of
        Some r \<Rightarrow> Some (v, r)
      | None \<Rightarrow> scan_constant ws s)"

definition scan_literal :: "string \<Rightarrow> (json \<times> string) option" where
  "scan_literal s =
     (case scan_constant constants s of
        Some vr \<Rightarrow> Some vr
      | None \<Rightarrow> map_option (\<lambda>(lit, r). (JNum lit, r)) (match_number s))"

text \<open>
  \<open>scan_once\<close> and the two container parsers call each other; the first argument bounds
  the number of calls.  \<open>Exhausted\<close> is the bound being reached, \<open>Malformed\<close> is
  \<open>JSONDecodeError\<close>.  \<open>parse_object\<close> and \<open>parse_array\<close> are the loops of the container
  parsers, entered at a key and at an element, with the entries read so far.
\<close>

datatype scanned = Scanned json string | Malformed | Exhausted

fun scan_once :: "nat \<Rightarrow> string \<Rightarrow> scanned"
  and parse_object :: "nat \<Rightarrow> string \<Rightarrow> (string \<times> json) list \<Rightarrow> scanned"
  and parse_array :: "nat \<Rightarrow> string \<Rightarrow> json list \<Rightarrow> scanned"
where
  "scan_once 0 s = Exhausted"
| "scan_once (Suc n) s =
     (case s of
        [] \<Rightarrow> Malformed
      | c # cs \<Rightarrow>
          if c = CHR 0x22 then
            (case scanstring cs of
               None \<Rightarrow> Malformed
             | Some (str, r) \<Rightarrow> Scanned (JStr str) r)
          else if c = CHR ''{'' then
            (case skip_ws cs of
               [] \<Rightarrow> parse_object n [] []
             | x # r \<Rightarrow> if x = CHR ''}'' then Scanned (JObj []) r else parse_object n (x # r) [])
          else if c = CHR ''['' then
            (case skip_ws cs of
               [] \<Rightarrow> parse_array n [] []
             | x # r \<Rightarrow> if x = CHR '']'' then Scanned (JArr []) r else parse_array n (x # r) [])
          else
            (case scan_literal s of
               None \<Rightarrow> Malformed
             | Some (v, r) \<Rightarrow> Scanned v r))"
| "parse_object 0 s d = Exhausted"
| "parse_object (Suc n) s d =
     (case s of
        [] \<Rightarrow> Malformed
      | q # cs \<Rightarrow>
          if q \<noteq> CHR 0x22 then Malformed
          else
            (case scanstring cs of
               None \<Rightarrow> Malformed
             | Some (key, r) \<Rightarrow>
                 (case skip_ws r of
                    [] \<Rightarrow> Malformed
                  | colon # r1 \<Rightarrow>
                      if colon \<noteq> CHR '':'' then Malformed
                      else
                        (case scan_once n (skip_ws r1) of
                           Exhausted \<Rightarrow> Exhausted
                         | Malformed \<Rightarrow> Malformed
                         | Scanned v r2 \<Rightarrow>
                             (case skip_ws r2 of
                                [] \<Rightarrow> Malformed
                              | x # r3 \<Rightarrow>
                                  if x = CHR ''}'' then Scanned (JObj (dict_set d key v)) r3
                                  else if x = CHR '','' then
                                    parse_object n (skip_ws r3) (dict_set d key v)
                                  else Malformed)))))"
| "parse_array 0 s xs = Exhausted"
| "parse_array (Suc n) s xs =
     (case scan_once n s of
        Exhausted \<Rightarrow> Exhausted
      | Malformed \<Rightarrow> Malformed
      | Scanned v r \<Rightarrow>
          (case skip_ws r of
             [] \<Rightarrow> Malformed
           | x # r1 \<Rightarrow>
               if x = CHR '']'' then Scanned (JArr (xs @ [v])) r1
               else if x = CHR '','' then parse_array n (skip_ws r1) (xs @ [v])
               else Malformed))"

text \<open>
  \<open>json.loads\<close>: leading whitespace, one value, trailing whitespace, nothing else.  (A
  leading byte-order mark is refused by the library before decoding; here it is refused
  because no value starts with it.)  The bound is never reached (lemma \<open>scan_bound\<close>
  below): every call but the one from \<open>parse_array\<close> to \<open>scan_once\<close> comes after a
  character has been read.
\<close>

definition json_loads :: "string \<Rightarrow> json option" where
  "json_loads s =
     (case scan_once (Suc (2 * length s)) (skip_ws s) of
        Scanned v r \<Rightarrow> if skip_ws r = [] then Some v else None
      | Malformed \<Rightarrow> None
      | Exhausted \<Rightarrow> None)"

section \<open>The Action Parser's search: \<open>re.search(r"\{.*\}", text, re.DOTALL)\<close>\<close>

text \<open>
  The regular expression is matched the way the engine does it.  \<open>match_rest\<close> is
  \<open>.*\}\<close> against the text after an opening brace: \<open>.*\<close> takes as much as it can (with
  \<open>DOTALL\<close> every character) and gives characters back until a closing brace follows, so
  the result is the longest prefix that ends with one.  \<open>match_here\<close> is the whole pattern
  at the start of a text, and \<open>re_search\<close> tries the start positions from left to right.
\<close>

fun match_rest :: "string \<Rightarrow> string option" where
  "match_rest [] = None"
| "match_rest (c # cs) =
     (case match_rest cs of
        Some m \<Rightarrow> Some (c # m)
      | None \<Rightarrow> if c = CHR ''}'' then Some [c] else None)"

definition match_here :: "string \<Rightarrow> string option" where
  "match_here s =
     (case s of
        [] \<Rightarrow> None
      | c # cs \<Rightarrow> if c = CHR ''{'' then map_option (\<lambda>m. c # m) (match_rest cs) else None)"

fun re_search :: "string \<Rightarrow> string option" where
  "re_search [] = None"
| "re_search (c # cs) =
     (case match_here (c # cs) of
        Some m \<Rightarrow> Some m
      | None \<Rightarrow> re_search cs)"

section \<open>Configuration and tool executors (\<open>tools.py\<close>)\<close>

subsection \<open>\<open>load_config\<close>\<close>











subsection \<open>The operating system\<close>

text \<open>
  The files the executors write are a map from the path given to \<open>open\<close> to the contents.
  Everything else the operating system decides is a parameter, collected in \<open>os\<close>: whether
  a call raises (and the text of the exception, \<open>str(e)\<close>), what a directory lists, what
  a command prints and does to the files.
\<close>

type_synonym files = "json \<Rightarrow> string option"

record os =
  repr :: "json \<Rightarrow> string"
  listdir :: "files \<Rightarrow> json \<Rightarrow> string + string list"
  read_text :: "files \<Rightarrow> json \<Rightarrow> string + string"
  open_w :: "files \<Rightarrow> json \<Rightarrow> string option"
  write_fault :: "json \<Rightarrow> string \<Rightarrow> (string \<times> string) option"
  write_type_error :: "json \<Rightarrow> string"
  subprocess_run :: "files \<Rightarrow> json \<Rightarrow> (string + string \<times> string) \<times> files"

text \<open>
  \<open>listdir\<close>, \<open>read_text\<close>: \<open>os.listdir(path)\<close> and \<open>open(path, "r").read()\<close>; \<open>Inl\<close> is
  an exception.  \<open>open_w\<close>: the exception of \<open>open(path, "w")\<close>, if it raises.
  \<open>write_fault\<close>: the exception of writing a string to the opened file, if it raises, and
  what the file holds then.  \<open>write_type_error\<close>: the exception text of \<open>f.write(x)\<close> for an
  \<open>x\<close> that is not a string.  \<open>subprocess_run\<close>: \<open>Inl\<close> when \<open>subprocess.run\<close> raises, else
  the captured standard output and standard error, and the files afterwards.
\<close>

subsection \<open>The message texts\<close>

definition NL :: string where
  "NL = [CHR 0x0A]"

definition QUOTE :: string where
  "QUOTE = [CHR 0x27]"

definition DIR_HEAD :: string where
  "DIR_HEAD =
     [CHR 0xD0, CHR 0xA1, CHR 0xD0, CHR 0xBE, CHR 0xD0, CHR 0xB4, CHR 0xD0, CHR 0xB5,
      CHR 0xD1, CHR 0x80, CHR 0xD0, CHR 0xB6, CHR 0xD0, CHR 0xB8, CHR 0xD0, CHR 0xBC,
      CHR 0xD0, CHR 0xBE, CHR 0xD0, CHR 0xB5, CHR '' '', CHR 0xD0, CHR 0xB4, CHR 0xD0,
      CHR 0xB8, CHR 0xD1, CHR 0x80, CHR 0xD0, CHR 0xB5, CHR 0xD0, CHR 0xBA, CHR 0xD1,
      CHR 0x82, CHR 0xD0, CHR 0xBE, CHR 0xD1, CHR 0x80, CHR 0xD0, CHR 0xB8, CHR 0xD0,
      CHR 0xB8, CHR '' '']"

definition LIST_ERROR :: string where
  "LIST_ERROR =
     [CHR 0xD0, CHR 0x9E, CHR 0xD1, CHR 0x88, CHR 0xD0, CHR 0xB8, CHR 0xD0, CHR 0xB1,
      CHR 0xD0, CHR 0xBA, CHR 0xD0, CHR 0xB0, CHR '' '', CHR 0xD0, CHR 0xBF, CHR 0xD1,
      CHR 0x80, CHR 0xD0, CHR 0xB8, CHR '' '', CHR 0xD0, CHR 0xBF, CHR 0xD1, CHR 0x80,
      CHR 0xD0, CHR 0xBE, CHR 0xD1, CHR 0x81, CHR 0xD0, CHR 0xBC, CHR 0xD0, CHR 0xBE,
      CHR 0xD1, CHR 0x82, CHR 0xD1, CHR 0x80, CHR 0xD0, CHR 0xB5, CHR '' '', CHR 0xD0,
      CHR 0xB4, CHR 0xD0, CHR 0xB8, CHR 0xD1, CHR 0x80, CHR 0xD0, CHR 0xB5, CHR 0xD0,
      CHR 0xBA, CHR 0xD1, CHR 0x82, CHR 0xD0, CHR 0xBE, CHR 0xD1, CHR 0x80, CHR 0xD0,
      CHR 0xB8, CHR 0xD0, CHR 0xB8, CHR '':'', CHR '' '']"

definition FILE_HEAD :: string where
  "FILE_HEAD =
     [CHR 0xD0, CHR 0xA1, CHR 0xD0, CHR 0xBE, CHR 0xD0, CHR 0xB4, CHR 0xD0, CHR 0xB5,
      CHR 0xD1, CHR 0x80, CHR 0xD0, CHR 0xB6, CHR 0xD0, CHR 0xB8, CHR 0xD0, CHR 0xBC,
      CHR 0xD0, CHR 0xBE, CHR 0xD0, CHR 0xB5, CHR '' '', CHR 0xD1, CHR 0x84, CHR 0xD0,
      CHR 0xB0, CHR 0xD0, CHR 0xB9, CHR 0xD0, CHR 0xBB, CHR 0xD0, CHR 0xB0, CHR '' '']"

definition READ_ERROR :: string where
  "READ_ERROR =
     [CHR 0xD0, CHR 0x9E, CHR 0xD1, CHR 0x88, CHR 0xD0, CHR 0xB8, CHR 0xD0, CHR 0xB1,
      CHR 0xD0, CHR 0xBA, CHR 0xD0, CHR 0xB0, CHR '' '', CHR 0xD0, CHR 0xBF, CHR 0xD1,
      CHR 0x80, CHR 0xD0, CHR 0xB8, CHR '' '', CHR 0xD1, CHR 0x87, CHR 0xD1, CHR 0x82,
      CHR 0xD0, CHR 0xB5, CHR 0xD0, CHR 0xBD, CHR 0xD0, CHR 0xB8, CHR 0xD0, CHR 0xB8,
      CHR '' '', CHR 0xD1, CHR 0x84, CHR 0xD0, CHR 0xB0, CHR 0xD0, CHR 0xB9, CHR 0xD0,
      CHR 0xBB, CHR 0xD0, CHR 0xB0, CHR '':'', CHR '' '']"

definition FILE_WORD :: string where
  "FILE_WORD =
     [CHR 0xD0, CHR 0xA4, CHR 0xD0, CHR 0xB0, CHR 0xD0, CHR 0xB9, CHR 0xD0, CHR 0xBB,
      CHR '' '']"

definition WRITTEN :: string where
  "WRITTEN =
     [CHR 0xD1, CHR 0x83, CHR 0xD1, CHR 0x81, CHR 0xD0, CHR 0xBF, CHR 0xD0, CHR 0xB5,
      CHR 0xD1, CHR 0x88, CHR 0xD0, CHR 0xBD, CHR 0xD0, CHR 0xBE, CHR '' '', CHR 0xD0,
      CHR 0xB7, CHR 0xD0, CHR 0xB0, CHR 0xD0, CHR 0xBF, CHR 0xD0, CHR 0xB8, CHR 0xD1,
      CHR 0x81, CHR 0xD0, CHR 0xB0, CHR 0xD0, CHR 0xBD]"

definition WRITE_ERROR :: string where
  "WRITE_ERROR =
     [CHR 0xD0, CHR 0x9E, CHR 0xD1, CHR 0x88, CHR 0xD0, CHR 0xB8, CHR 0xD0, CHR 0xB1,
      CHR 0xD0, CHR 0xBA, CHR 0xD0, CHR 0xB0, CHR '' '', CHR 0xD0, CHR 0xBF, CHR 0xD1,
      CHR 0x80, CHR 0xD0, CHR 0xB8, CHR '' '', CHR 0xD0, CHR 0xB7, CHR 0xD0, CHR 0xB0,
      CHR 0xD0, CHR 0xBF, CHR 0xD0, CHR 0xB8, CHR 0xD1, CHR 0x81, CHR 0xD0, CHR 0xB8,
      CHR '' '', CHR 0xD1, CHR 0x84, CHR 0xD0, CHR 0xB0, CHR 0xD0, CHR 0xB9, CHR 0xD0,
      CHR 0xBB, CHR 0xD0, CHR 0xB0, CHR '':'', CHR '' '']"

definition NO_OUTPUT :: string where
  "NO_OUTPUT =
     [CHR 0xD0, CHR 0x9A, CHR 0xD0, CHR 0xBE, CHR 0xD0, CHR 0xBC, CHR 0xD0, CHR 0xB0,
      CHR 0xD0, CHR 0xBD, CHR 0xD0, CHR 0xB4, CHR 0xD0, CHR 0xB0, CHR '' '', CHR 0xD0,
      CHR 0xB2, CHR 0xD1, CHR 0x8B, CHR 0xD0, CHR 0xBF, CHR 0xD0, CHR 0xBE, CHR 0xD0,
      CHR 0xBB, CHR 0xD0, CHR 0xBD, CHR 0xD0, CHR 0xB5, CHR 0xD0, CHR 0xBD, CHR 0xD0,
      CHR 0xB0, CHR '' '', CHR 0xD0, CHR 0xB1, CHR 0xD0, CHR 0xB5, CHR 0xD0, CHR 0xB7,
      CHR '' '', CHR 0xD0, CHR 0xB2, CHR 0xD1, CHR 0x8B, CHR 0xD0, CHR 0xB2, CHR 0xD0,
      CHR 0xBE, CHR 0xD0, CHR 0xB4, CHR 0xD0, CHR 0xB0, CHR ''.'']"

definition SHELL_ERROR :: string where
  "SHELL_ERROR =
     [CHR 0xD0, CHR 0x9E, CHR 0xD1, CHR 0x88, CHR 0xD0, CHR 0xB8, CHR 0xD0, CHR 0xB1,
      CHR 0xD0, CHR 0xBA, CHR 0xD0, CHR 0xB0, CHR '' '', CHR 0xD0, CHR 0xBF, CHR 0xD1,
      CHR 0x80, CHR 0xD0, CHR 0xB8, CHR '' '', CHR 0xD0, CHR 0xB2, CHR 0xD1, CHR 0x8B,
      CHR 0xD0, CHR 0xBF, CHR 0xD0, CHR 0xBE, CHR 0xD0, CHR 0xBB, CHR 0xD0, CHR 0xBD,
      CHR 0xD0, CHR 0xB5, CHR 0xD0, CHR 0xBD, CHR 0xD0, CHR 0xB8, CHR 0xD0, CHR 0xB8,
      CHR '' '', CHR 0xD0, CHR 0xBA, CHR 0xD0, CHR 0xBE, CHR 0xD0, CHR 0xBC, CHR 0xD0,
      CHR 0xB0, CHR 0xD0, CHR 0xBD, CHR 0xD0, CHR 0xB4, CHR 0xD1, CHR 0x8B, CHR '':'',
      CHR '' '']"

text \<open>
  These are the Russian texts of \<open>tools.py\<close> in UTF-8: \<open>DIR_HEAD\<close> and \<open>FILE_HEAD\<close> open
  the listing of a directory and of a file, \<open>FILE_WORD\<close> is the word before the quoted
  path in the success text of \<open>agent_write_file\<close> and \<open>WRITTEN\<close> the two words after it
  ("successfully written"), \<open>NO_OUTPUT\<close> is the text for a command without output, and
  the four \<open>_ERROR\<close> texts precede the exception in an error description.
\<close>

subsection \<open>The executors\<close>

definition join_lines :: "string list \<Rightarrow> string" where
  "join_lines xs = (case xs of [] \<Rightarrow> [] | x # ys \<Rightarrow> x @ concat (map (\<lambda>y. NL @ y) ys))"

definition agent_list_directory :: "os \<Rightarrow> files \<Rightarrow> json \<Rightarrow> string" where
  "agent_list_directory os fs path =
     (case listdir os fs path of
        Inr entries \<Rightarrow> DIR_HEAD @ QUOTE @ py_str (repr os) path @ QUOTE @ '':'' @ NL @ join_lines entries
      | Inl e \<Rightarrow> LIST_ERROR @ e)"

definition agent_read_file :: "os \<Rightarrow> files \<Rightarrow> json \<Rightarrow> string" where
  "agent_read_file os fs path =
     (case read_text os fs path of
        Inr content \<Rightarrow>
          FILE_HEAD @ QUOTE @ py_str (repr os) path @ QUOTE @ '':'' @ NL @ ''```'' @ NL @ content @ NL @ ''```''
      | Inl e \<Rightarrow> READ_ERROR @ e)"

text \<open>
  \<open>agent_write_file\<close>: once \<open>open(path, "w")\<close> has succeeded the file exists and is empty;
  \<open>f.write(content)\<close> raises for a content that is not a string.  The result is the text
  returned and the files afterwards.
\<close>

definition agent_write_file :: "os \<Rightarrow> files \<Rightarrow> json \<Rightarrow> json \<Rightarrow> string \<times> files" where
  "agent_write_file os fs path content =
     (case open_w os fs path of
        Some e \<Rightarrow> (WRITE_ERROR @ e, fs)
      | None \<Rightarrow>
          (case content of
             JStr c \<Rightarrow>
               (case write_fault os path c of
                  None \<Rightarrow>
                    (FILE_WORD @ QUOTE @ py_str (repr os) path @ QUOTE @ '' '' @ WRITTEN @ ''.'',
                     fs(path \<mapsto> c))
                | Some (e, partial) \<Rightarrow> (WRITE_ERROR @ e, fs(path \<mapsto> partial)))
           | _ \<Rightarrow> (WRITE_ERROR @ write_type_error os content, fs(path \<mapsto> []))))"

definition agent_execute_shell :: "os \<Rightarrow> files \<Rightarrow> json \<Rightarrow> string \<times> files" where
  "agent_execute_shell os fs command =
     (case subprocess_run os fs command of
        (Inr (out, err), fs') \<Rightarrow>
          (let output = [];
               output = (if out \<noteq> [] then output @ ''STDOUT:'' @ NL @ out @ NL else output);
               output = (if err \<noteq> [] then output @ ''STDERR:'' @ NL @ err @ NL else output);
               output = (if output = [] then NO_OUTPUT else output)
           in (output, fs'))
      | (Inl e, fs') \<Rightarrow> (SHELL_ERROR @ e, fs'))"

section \<open>The agent loop (\<open>handler.py\<close>)\<close>

subsection \<open>Constants\<close>


definition SYSTEM_PROMPT :: string where
  "SYSTEM_PROMPT =
     [CHR 0x0A] @
     ''You are a powerful CLI assistant running in a local environment. You can per'' @
     ''form tasks by responding ONLY with a JSON object describing the tool you wan'' @
     ''t to use. You can have a conversation with the user, but all your responses '' @
     ''that are not a final answer MUST be in the specified JSON format.'' @
     [CHR 0x0A, CHR 0x0A] @
     ''NEVER write any text outside of the JSON object. Do not add explanations or '' @
     ''any extra characters.'' @
     [CHR 0x0A, CHR 0x0A] @
     ''Available tools:'' @
     [CHR 0x0A] @
     ''1. `list_directory`: Lists files and directories.'' @
     [CHR 0x0A] @
     ''   - `path` (string, required): The path of the directory to list. Use '' @
     [CHR 0x22] @
     ''.'' @
     [CHR 0x22] @
     '' for the current directory.'' @
     [CHR 0x0A, CHR 0x0A] @
     ''2. `read_file`: Reads the content of a file.'' @
     [CHR 0x0A] @
     ''   - `path` (string, required): The path to the file.'' @
     [CHR 0x0A, CHR 0x0A] @
     ''3. `write_file`: Writes content to a file. This will overwrite the file if i'' @
     ''t exists.'' @
     [CHR 0x0A] @
     ''   - `path` (string, required): The path to the file.'' @
     [CHR 0x0A] @
     ''   - `content` (string, required): The content to write.'' @
     [CHR 0x0A, CHR 0x0A] @
     ''4. `execute_shell`: Executes a shell command.'' @
     [CHR 0x0A] @
     ''   - `command` (string, required): The command to execute.'' @
     [CHR 0x0A, CHR 0x0A] @
     ''5. `ask_user`: Ask the user for clarification.'' @
     [CHR 0x0A] @
     ''   - `question` (string, required): The question to ask the user.'' @
     [CHR 0x0A, CHR 0x0A] @
     ''6. `final_answer`: Give the final answer to the user and finish the task.'' @
     [CHR 0x0A] @
     ''   - `text` (string, required): The final text response.'' @
     [CHR 0x0A, CHR 0x0A] @
     ''---'' @
     [CHR 0x0A] @
     ''Best Practices:'' @
     [CHR 0x0A] @
     ''- When writing HTML, create a separate .css file for styles and link it usin'' @
     ''g a <link> tag in the HTML'' @
     [CHR 0x27] @
     ''s <head>. Do not use inline <style> tags unless specifically asked.'' @
     [CHR 0x0A] @
     ''- Always use the `write_file` tool to create or modify files. Do not use `ex'' @
     ''ecute_shell` with `echo` or other redirection operators for writing files.'' @
     [CHR 0x0A] @
     ''- Think step-by-step. For a complex task like '' @
     [CHR 0x22] @
     ''create a website'' @
     [CHR 0x22] @
     '', first write the HTML file, then the CSS file, then link them.'' @
     [CHR 0x0A] @
     ''---'' @
     [CHR 0x0A, CHR 0x0A] @
     ''Example of a user asking to list files:'' @
     [CHR 0x0A] @
     ''User: '' @
     [CHR 0x22] @
     ''Show me the files in the current directory.'' @
     [CHR 0x22, CHR 0x0A] @
     ''You:'' @
     [CHR 0x0A] @
     ''{'' @
     [CHR 0x0A] @
     ''    '' @
     [CHR 0x22] @
     ''tool'' @
     [CHR 0x22] @
     '': '' @
     [CHR 0x22] @
     ''list_directory'' @
     [CHR 0x22] @
     '','' @
     [CHR 0x0A] @
     ''    '' @
     [CHR 0x22] @
     ''args'' @
     [CHR 0x22] @
     '': {'' @
     [CHR 0x0A] @
     ''        '' @
     [CHR 0x22] @
     ''path'' @
     [CHR 0x22] @
     '': '' @
     [CHR 0x22] @
     ''.'' @
     [CHR 0x22, CHR 0x0A] @
     ''    }'' @
     [CHR 0x0A] @
     ''}'' @
     [CHR 0x0A, CHR 0x0A] @
     ''Example of providing a final answer:'' @
     [CHR 0x0A] @
     ''User: '' @
     [CHR 0x22] @
     ''Thank you!'' @
     [CHR 0x22, CHR 0x0A] @
     ''You:'' @
     [CHR 0x0A] @
     ''{'' @
     [CHR 0x0A] @
     ''    '' @
     [CHR 0x22] @
     ''tool'' @
     [CHR 0x22] @
     '': '' @
     [CHR 0x22] @
     ''final_answer'' @
     [CHR 0x22] @
     '','' @
     [CHR 0x0A] @
     ''    '' @
     [CHR 0x22] @
     ''args'' @
     [CHR 0x22] @
     '': {'' @
     [CHR 0x0A] @
     ''        '' @
     [CHR 0x22] @
     ''text'' @
     [CHR 0x22] @
     '': '' @
     [CHR 0x22] @
     ''You'' @
     [CHR 0x27] @
     ''re welcome! Let me know if you need anything else.'' @
     [CHR 0x22, CHR 0x0A] @
     ''    }'' @
     [CHR 0x0A] @
     ''}'' @
     [CHR 0x0A]"

definition UNKNOWN_TOOL :: string where
  "UNKNOWN_TOOL =
     [CHR 0xD0, CHR 0x9D, CHR 0xD0, CHR 0xB5, CHR 0xD0, CHR 0xB8, CHR 0xD0, CHR 0xB7,
      CHR 0xD0, CHR 0xB2, CHR 0xD0, CHR 0xB5, CHR 0xD1, CHR 0x81, CHR 0xD1, CHR 0x82,
      CHR 0xD0, CHR 0xBD, CHR 0xD1, CHR 0x8B, CHR 0xD0, CHR 0xB9, CHR '' '', CHR 0xD0,
      CHR 0xB8, CHR 0xD0, CHR 0xBD, CHR 0xD1, CHR 0x81, CHR 0xD1, CHR 0x82, CHR 0xD1,
      CHR 0x80, CHR 0xD1, CHR 0x83, CHR 0xD0, CHR 0xBC, CHR 0xD0, CHR 0xB5, CHR 0xD0,
      CHR 0xBD, CHR 0xD1, CHR 0x82, CHR '':'', CHR '' '']"

text \<open>
  \<open>UNKNOWN_TOOL\<close> is the Russian text ("Unknown tool: ") that precedes the tool name in
  the last branch of the dispatch.
\<close>

subsection \<open>History, console, session\<close>

datatype role = System | User | Assistant

record message =
  role :: role
  content :: json

definition role_name :: "role \<Rightarrow> string" where
  "role_name r = (case r of System \<Rightarrow> ''system'' | User \<Rightarrow> ''user'' | Assistant \<Rightarrow> ''assistant'')"

definition message_json :: "message \<Rightarrow> json" where
  "message_json m = JObj [(''role'', JStr (role_name (role m))), (''content'', content m)]"

text \<open>
  What the program prints is a trace of events, one per \<open>console.print\<close>; how the
  terminal renders a panel, markup or Markdown is outside the model.
\<close>

datatype shown =
    NoChatUrl json
  | NoApiKey json
  | NoModel json
  | Banner json json
  | RequestError string
  | ResponseError exc
  | CallingTool json "(string \<times> json) list"
  | ResultPanel string
  | ResultPlain string
  | Question json
  | FinalAnswer json
  | Markdown string

text \<open>
  The control points of \<open>chat_with_bot\<close>: \<open>AWAIT_USER_INPUT\<close> is the \<open>console.input\<close>
  of the outer loop, \<open>SEND_TO_MODEL\<close> the head of the inner loop, \<open>EXITED\<close> the function
  having returned, \<open>CRASHED\<close> an exception having left it.
\<close>

datatype control = AWAIT_USER_INPUT | SEND_TO_MODEL | EXITED | CRASHED exc

record session =
  provider :: json
  api_key :: json
  chat_url :: json
  model_name :: json
  history :: "message list"
  files :: files
  console :: "shown list"
  ctl :: control

subsection \<open>The request\<close>

record request =
  url :: json
  headers :: "(string \<times> string) list"
  data :: json

definition chat_headers :: "os \<Rightarrow> json \<Rightarrow> (string \<times> string) list" where
  "chat_headers os key =
     (let headers = [(''Content-Type'', ''application/json'')]
      in if truthy key then headers @ [(''Authorization'', ''Bearer '' @ py_str (repr os) key)]
         else headers)"

text \<open>
  The Gemini branch is a dict comprehension inside a list display: every user message
  assigns the one key \<open>"parts"\<close> of one dict.
\<close>

definition gemini_contents :: "message list \<Rightarrow> json list" where
  "gemini_contents hist =
     [JObj (foldl (\<lambda>d m. dict_set d ''parts'' (JArr [JObj [(''text'', content m)]])) []
              (filter (\<lambda>m. role m = User) hist))]"

definition chat_data :: "json \<Rightarrow> json \<Rightarrow> message list \<Rightarrow> json" where
  "chat_data prov model hist =
     (if prov = JStr ''gemini''
      then JObj [(''contents'', JArr (gemini_contents hist))]
      else JObj [(''model'', model), (''messages'', JArr (map message_json hist))])"

definition chat_request :: "os \<Rightarrow> session \<Rightarrow> request" where
  "chat_request os s =
     \<lparr>url = chat_url s,
      headers = chat_headers os (api_key s),
      data = chat_data (provider s) (model_name s) (history s)\<rparr>"

subsection \<open>The reply\<close>

text \<open>
  What \<open>requests.post\<close>, \<open>raise_for_status\<close> and \<open>response.json()\<close> give: a
  \<open>RequestException\<close> (with its text) or the decoded body.
\<close>

datatype http = RequestException string | Response json

definition attempt :: "exc + 'a \<Rightarrow> ('a \<Rightarrow> exc + 'b) \<Rightarrow> exc + 'b" where
  "attempt r f = (case r of Inl e \<Rightarrow> Inl e | Inr x \<Rightarrow> f x)"

definition response_text :: "json \<Rightarrow> json \<Rightarrow> exc + json" where
  "response_text prov response_json =
     (if prov = JStr ''gemini'' then
        attempt (py_item response_json ''candidates'') (\<lambda>a.
        attempt (py_item0 a) (\<lambda>b.
        attempt (py_item b ''content'') (\<lambda>c.
        attempt (py_item c ''parts'') (\<lambda>d.
        attempt (py_item0 d) (\<lambda>e.
        py_item e ''text'')))))
      else
        attempt (py_item response_json ''choices'') (\<lambda>a.
        attempt (py_item0 a) (\<lambda>b.
        attempt (py_item b ''message'') (\<lambda>c.
        py_item c ''content''))))"

subsection \<open>One turn of the inner loop\<close>

definition say :: "shown \<Rightarrow> session \<Rightarrow> session" where
  "say x s = s\<lparr>console := console s @ [x]\<rparr>"

definition append_message :: "role \<Rightarrow> json \<Rightarrow> session \<Rightarrow> session" where
  "append_message r c s = s\<lparr>history := history s @ [\<lparr>role = r, content = c\<rparr>]\<rparr>"

text \<open>\<open>break\<close> of the inner loop: back to the prompt of the outer loop.\<close>

definition break_inner :: "session \<Rightarrow> session" where
  "break_inner s = s\<lparr>ctl := AWAIT_USER_INPUT\<rparr>"

text \<open>
  An exception inside the \<open>try\<close> of the inner loop: \<open>IndexError\<close> and \<open>KeyError\<close> are
  reported and end the inner loop, any other one leaves \<open>chat_with_bot\<close>.
\<close>

definition raise_in_turn :: "exc \<Rightarrow> session \<Rightarrow> session" where
  "raise_in_turn e s =
     (if e = IndexError \<or> e = KeyError then break_inner (say (ResponseError e) s)
      else s\<lparr>ctl := CRASHED e\<rparr>)"

text \<open>
  The end of a turn that ran a tool (or found none by that name): the result is shown,
  appended as a user message, and the inner loop goes round again.
\<close>

definition apply_tool_result :: "string \<Rightarrow> session \<Rightarrow> session" where
  "apply_tool_result tool_result s =
     (append_message User (JStr (''TOOL_RESULT: '' @ tool_result))
        (say (if sublist WRITTEN tool_result then ResultPanel tool_result
              else ResultPlain tool_result) s))
      \<lparr>ctl := SEND_TO_MODEL\<rparr>"

definition dict_get :: "(string \<times> json) list \<Rightarrow> string \<Rightarrow> json \<Rightarrow> json" where
  "dict_get d k dflt = (case map_of d k of None \<Rightarrow> dflt | Some v \<Rightarrow> v)"

text \<open>The \<open>if\<close>/\<open>elif\<close> chain on the tool name; \<open>args\<close> is a dict here.\<close>

definition dispatch :: "os \<Rightarrow> json \<Rightarrow> (string \<times> json) list \<Rightarrow> session \<Rightarrow> session" where
  "dispatch os tool_name args s =
     (if tool_name = JStr ''list_directory'' then
        apply_tool_result (agent_list_directory os (files s) (dict_get args ''path'' (JStr ''.''))) s
      else if tool_name = JStr ''read_file'' then
        apply_tool_result (agent_read_file os (files s) (dict_get args ''path'' JNull)) s
      else if tool_name = JStr ''write_file'' then
        (case agent_write_file os (files s) (dict_get args ''path'' JNull)
                (dict_get args ''content'' JNull) of
           (tool_result, fs') \<Rightarrow> apply_tool_result tool_result (s\<lparr>files := fs'\<rparr>))
      else if tool_name = JStr ''execute_shell'' then
        (case agent_execute_shell os (files s) (dict_get args ''command'' JNull) of
           (tool_result, fs') \<Rightarrow> apply_tool_result tool_result (s\<lparr>files := fs'\<rparr>))
      else if tool_name = JStr ''ask_user'' then
        break_inner (say (Question (dict_get args ''question'' JNull)) s)
      else if tool_name = JStr ''final_answer'' then
        break_inner (say (FinalAnswer (dict_get args ''text'' JNull)) s)
      else
        apply_tool_result (UNKNOWN_TOOL @ py_str (repr os) tool_name) s)"

text \<open>
  The decoded action: \<open>action.get("tool")\<close>, \<open>action.get("args", {})\<close>, \<open>args.items()\<close>
  for the panel that announces the call (only a dict has \<open>items\<close>), then the dispatch.
\<close>

definition run_action :: "os \<Rightarrow> json \<Rightarrow> session \<Rightarrow> session" where
  "run_action os action s =
     (case py_get action ''tool'' JNull of
        Inl e \<Rightarrow> raise_in_turn e s
      | Inr tool_name \<Rightarrow>
          (case py_get action ''args'' (JObj []) of
             Inl e \<Rightarrow> raise_in_turn e s
           | Inr (JObj args) \<Rightarrow> dispatch os tool_name args (say (CallingTool tool_name args) s)
           | Inr _ \<Rightarrow> raise_in_turn AttributeError s))"

text \<open>
  The Action Parser on the reply: the search, the decode of the span found, and the
  fall-back to showing the reply.  \<open>re.search\<close> raises \<open>TypeError\<close> for a reply that is not
  a string.
\<close>

definition parse_reply :: "os \<Rightarrow> json \<Rightarrow> session \<Rightarrow> session" where
  "parse_reply os reply s =
     (case reply of
        JStr txt \<Rightarrow>
          (case re_search txt of
             Some json_str \<Rightarrow>
               (case json_loads json_str of
                  Some action \<Rightarrow> run_action os action s
                | None \<Rightarrow> break_inner (say (Markdown txt) s))
           | None \<Rightarrow> break_inner (say (Markdown txt) s))
      | _ \<Rightarrow> raise_in_turn TypeError s)"

definition model_turn :: "os \<Rightarrow> (request \<Rightarrow> http) \<Rightarrow> session \<Rightarrow> session" where
  "model_turn os remote s =
     (case remote (chat_request os s) of
        RequestException e \<Rightarrow> break_inner (say (RequestError e) s)
      | Response response_json \<Rightarrow>
          (case response_text (provider s) response_json of
             Inl e \<Rightarrow> raise_in_turn e s
           | Inr reply \<Rightarrow> parse_reply os reply (append_message Assistant reply s)))"

subsection \<open>The outer loop\<close>

text \<open>
  \<open>lower\<close> is \<open>str.lower\<close> on the characters whose lower-case form is an ASCII letter: the
  Latin capitals and the Kelvin sign (three bytes).  Other characters are left as they
  are; their lower-case forms are not ASCII, so the comparison with the two keywords is
  the program's.
\<close>

definition lower_char :: "char \<Rightarrow> char" where
  "lower_char c =
     (if (65::nat) \<le> of_char c \<and> of_char c \<le> (90::nat) then char_of (of_char c + (32::nat)) else c)"

fun lower :: "string \<Rightarrow> string" where
  "lower (a # b # c # cs) =
     (if a = CHR 0xE2 \<and> b = CHR 0x84 \<and> c = CHR 0xAA then CHR ''k'' # lower cs
      else lower_char a # lower (b # c # cs))"
| "lower (a # cs) = lower_char a # lower cs"
| "lower [] = []"

definition user_turn :: "string \<Rightarrow> session \<Rightarrow> session" where
  "user_turn user_prompt s =
     (if lower user_prompt \<in> set [''/exit'', ''/back''] then s\<lparr>ctl := EXITED\<rparr>
      else if user_prompt = [] then s
      else (append_message User (JStr user_prompt) s)\<lparr>ctl := SEND_TO_MODEL\<rparr>)"

text \<open>
  The loop is driven by what reaches it from outside: a line typed by the user, or the
  endpoint's answer to the request together with the operating system's behaviour during
  the turn.  An event that does not fit the control point cannot occur and changes
  nothing.
\<close>

datatype event = UserInput string | ModelReply os "request \<Rightarrow> http"

definition step :: "session \<Rightarrow> event \<Rightarrow> session" where
  "step s ev =
     (case ev of
        UserInput line \<Rightarrow> (if ctl s = AWAIT_USER_INPUT then user_turn line s else s)
      | ModelReply os remote \<Rightarrow> (if ctl s = SEND_TO_MODEL then model_turn os remote s else s))"

definition run :: "session \<Rightarrow> event list \<Rightarrow> session" where
  "run s evs = foldl step s evs"

subsection \<open>Entering the loop\<close>



section \<open>The \<open>/chat\<close> command (\<open>main.py\<close>)\<close>


section \<open>The specification's notions\<close>


text \<open>A text has a brace pair when an opening brace is followed, anywhere, by a closing one.\<close>

definition brace_pair :: "string \<Rightarrow> bool" where
  "brace_pair txt \<longleftrightarrow>
     (\<exists>i j. i < j \<and> j < length txt \<and> txt ! i = CHR ''{'' \<and> txt ! j = CHR ''}'')"






text \<open>
  The pattern of the roles after the system message: user, assistant, user, assistant and
  so on (a tool result is a user message).  A history is well formed when it starts with a
  system message and the roles of the rest follow the pattern; the pattern has no place
  for a second system message.
\<close>

fun alternating :: "role list \<Rightarrow> bool" where
  "alternating [] = True"
| "alternating [r] = (r = User)"
| "alternating (r # r' # rs) = (r = User \<and> r' = Assistant \<and> alternating rs)"

definition well_formed :: "message list \<Rightarrow> bool" where
  "well_formed h = (case map role h of [] \<Rightarrow> False | r # rs \<Rightarrow> r = System \<and> alternating rs)"

text \<open>Every assistant message comes directly after a user message.\<close>

fun answers_follow :: "role list \<Rightarrow> bool" where
  "answers_follow (r # r' # rs) = ((r' = Assistant \<longrightarrow> r = User) \<and> answers_follow (r' # rs))"
| "answers_follow rs = True"

text \<open>
  A turn of the inner loop fails when the request raises (a transport error) or the reply
  text cannot be taken out of the response (a response-shape error).  A run is free of
  errors when no turn of it fails.
\<close>

definition turn_fails :: "os \<Rightarrow> (request \<Rightarrow> http) \<Rightarrow> session \<Rightarrow> bool" where
  "turn_fails os remote s =
     (case remote (chat_request os s) of
        RequestException e \<Rightarrow> True
      | Response response_json \<Rightarrow>
          (case response_text (provider s) response_json of Inl e \<Rightarrow> True | Inr reply \<Rightarrow> False))"

definition failed :: "session \<Rightarrow> event \<Rightarrow> bool" where
  "failed s ev =
     (case ev of
        UserInput line \<Rightarrow> False
      | ModelReply os remote \<Rightarrow> ctl s = SEND_TO_MODEL \<and> turn_fails os remote s)"

fun error_free :: "session \<Rightarrow> event list \<Rightarrow> bool" where
  "error_free s [] = True"
| "error_free s (ev # evs) = (\<not> failed s ev \<and> error_free (step s ev) evs)"

text \<open>
  What holds of the history at the two points where the loop waits, in a run free of
  errors: after the system message, complete user/assistant pairs at the user prompt, and
  the pairs followed by one user message when a reply of the model is awaited.
\<close>

definition in_step :: "session \<Rightarrow> bool" where
  "in_step s \<longleftrightarrow>
     (\<exists>m rest. history s = m # rest \<and> role m = System \<and>
        (ctl s = AWAIT_USER_INPUT \<longrightarrow> alternating (map role rest) \<and> even (length rest)) \<and>
        (ctl s = SEND_TO_MODEL \<longrightarrow> alternating (map role rest) \<and> odd (length rest)))"

section \<open>Sample data\<close>

text \<open>
  An operating system on which every call succeeds: directories are empty, a file reads
  as what was written to it, commands print nothing.
\<close>

definition quiet_os :: os where
  "quiet_os =
     \<lparr>repr = (\<lambda>x. ''?''),
      listdir = (\<lambda>fs path. Inr []),
      read_text = (\<lambda>fs path. case fs path of None \<Rightarrow> Inl ''No such file'' | Some c \<Rightarrow> Inr c),
      open_w = (\<lambda>fs path. None),
      write_fault = (\<lambda>path c. None),
      write_type_error = (\<lambda>x. ''write() argument must be str''),
      subprocess_run = (\<lambda>fs command. (Inr ([], []), fs))\<rparr>"

text \<open>The same system, on which \<open>echo hi\<close> prints and any other command cannot be launched.\<close>

definition echo_os :: os where
  "echo_os =
     quiet_os\<lparr>subprocess_run :=
       (\<lambda>fs command.
          if command = JStr ''echo hi'' then (Inr (''hi'' @ NL, []), fs)
          else (Inl ''cannot launch'', fs))\<rparr>"


text \<open>The session that \<open>/chat\<close> opens with it, and the same session for Gemini.\<close>

definition sample_session :: session where
  "sample_session =
     \<lparr>provider = JStr ''base'', api_key = JStr ''secret'',
      chat_url = JStr ''https://text.pollinations.ai/openai'', model_name = JStr ''openai'',
      history = [\<lparr>role = System, content = JStr SYSTEM_PROMPT\<rparr>],
      files = Map.empty, console = [Banner (JStr ''openai'') (JStr ''base'')],
      ctl = AWAIT_USER_INPUT\<rparr>"


text \<open>An endpoint that answers every request with the given text, in the OpenAI shape.\<close>

definition answers :: "string \<Rightarrow> request \<Rightarrow> http" where
  "answers t req =
     Response (JObj [(''choices'', JArr [JObj [(''message'', JObj [(''content'', JStr t)])]])])"




text \<open>
  A session in which the first request fails with a transport error and the user types
  again.
\<close>

definition after_timeout :: session where
  "after_timeout =
     run sample_session
       [UserInput ''first'', ModelReply quiet_os (\<lambda>req. RequestException ''timeout''),
        UserInput ''again'']"

text \<open>Replies of the model: an unknown tool, and a \<open>write_file\<close> call.\<close>

definition bogus_reply :: string where
  "bogus_reply =
     ''{'' @
     [CHR 0x22] @
     ''tool'' @
     [CHR 0x22] @
     '':'' @
     [CHR 0x22] @
     ''bogus'' @
     [CHR 0x22] @
     ''}''"



definition prose_reply :: string where
  "prose_reply =
     ''Sure: {'' @
     [CHR 0x22] @
     ''tool'' @
     [CHR 0x22] @
     '':'' @
     [CHR 0x22] @
     ''bogus'' @
     [CHR 0x22] @
     ''} (done)''"

text \<open>A session with one tool call: the user asks, the model calls an unknown tool.\<close>

definition after_tool_call :: session where
  "after_tool_call =
     run sample_session [UserInput ''first'', ModelReply quiet_os (answers bogus_reply)]"

section \<open>The decoder's bound is never reached\<close>

text \<open>
  Every part of the decoder returns less input than it was given, so the bound given by
  \<open>json_loads\<close> suffices: a \<open>None\<close> of \<open>json_loads\<close> is always a \<open>JSONDecodeError\<close>.
\<close>

lemma skip_ws_length: "length (skip_ws s) \<le> length s"
  by (simp add: skip_ws_def length_dropWhile_le)

lemma scan_escape_shorter: "scan_escape cs = Some (bs, r) \<Longrightarrow> length r < length cs"
  by (auto simp: scan_escape_def split: list.splits option.splits if_splits)

lemma emit_Some: "emit bs x = Some (t, r) \<Longrightarrow> \<exists>t'. x = Some (t', r)"
  by (cases x) (auto simp: emit_def)

lemma scanstring_shorter: "scanstring cs = Some (t, r) \<Longrightarrow> length r < length cs"
proof (induction cs arbitrary: t r rule: scanstring.induct)
  case 1
  then show ?case by simp
next
  case (2 c cs)
  show ?case
  proof (cases "c = CHR 0x22")
    case True
    with "2.prems" show ?thesis by simp
  next
    case quote: False
    show ?thesis
    proof (cases "c = CHR 0x5C")
      case True
      with quote "2.prems" obtain bs q where esc: "scan_escape cs = Some (bs, q)"
        and em: "emit bs (scanstring q) = Some (t, r)"
        by (auto split: option.splits)
      from em obtain t' where "scanstring q = Some (t', r)"
        by (blast dest: emit_Some)
      with "2.IH"(1) [OF quote True esc refl] have "length r < length q"
        by simp
      with scan_escape_shorter [OF esc] show ?thesis
        by simp
    next
      case False
      with quote "2.prems" have ctl: "\<not> (of_char c :: nat) \<le> 0x1F"
        and em: "emit [c] (scanstring cs) = Some (t, r)"
        by (auto split: if_splits)
      from em obtain t' where "scanstring cs = Some (t', r)"
        by (blast dest: emit_Some)
      with "2.IH"(2) [OF quote False ctl] show ?thesis
        by simp
    qed
  qed
qed

lemma strip_prefix_length: "strip_prefix p s = Some r \<Longrightarrow> length r + length p = length s"
proof -
  assume "strip_prefix p s = Some r"
  then have tk: "take (length p) s = p" and r: "r = drop (length p) s"
    by (auto simp: strip_prefix_def split: if_splits)
  from tk have "length (take (length p) s) = length p"
    by simp
  then have "length p \<le> length s"
    by simp
  with r show ?thesis by simp
qed

lemma scan_constant_shorter:
  "scan_constant ws s = Some (v, r) \<Longrightarrow> \<forall>w \<in> set ws. fst w \<noteq> [] \<Longrightarrow> length r < length s"
proof (induction ws)
  case Nil
  then show ?case by simp
next
  case (Cons a ws)
  obtain word x where a: "a = (word, x)" by (cases a)
  show ?case
  proof (cases "strip_prefix word s")
    case None
    with Cons a show ?thesis by simp
  next
    case (Some r')
    with Cons.prems a have "r' = r" and "word \<noteq> []" by auto
    with strip_prefix_length [OF Some] show ?thesis by (cases word) auto
  qed
qed

lemma match_integer_shorter: "match_integer s = Some (i, r) \<Longrightarrow> length r < length s"
  by (auto simp: match_integer_def Let_def less_Suc_eq_le length_dropWhile_le
           split: list.splits if_splits intro: le_trans [OF length_dropWhile_le])

lemma match_fraction_length: "match_fraction s = (f, r) \<Longrightarrow> length r \<le> length s"
  by (auto simp: match_fraction_def split: list.splits if_splits
           intro: le_trans [OF length_dropWhile_le])

lemma match_exponent_length: "match_exponent s = (e, r) \<Longrightarrow> length r \<le> length s"
  by (auto simp: match_exponent_def Let_def split: list.splits if_splits prod.splits
           intro: le_trans [OF length_dropWhile_le])

lemma match_number_shorter: "match_number s = Some (lit, r) \<Longrightarrow> length r < length s"
proof -
  assume a: "match_number s = Some (lit, r)"
  then obtain i r0 where i: "match_integer s = Some (i, r0)"
    by (auto simp: match_number_def split: option.splits)
  obtain f r1 where f: "match_fraction r0 = (f, r1)" by (cases "match_fraction r0")
  obtain e r2 where e: "match_exponent r1 = (e, r2)" by (cases "match_exponent r1")
  from a i f e have "r = r2" by (simp add: match_number_def)
  with match_integer_shorter [OF i] match_fraction_length [OF f] match_exponent_length [OF e]
  show ?thesis by simp
qed

lemma scan_literal_shorter: "scan_literal s = Some (v, r) \<Longrightarrow> length r < length s"
proof (cases "scan_constant constants s")
  case None
  assume "scan_literal s = Some (v, r)"
  with None obtain lit where "match_number s = Some (lit, r)"
    by (auto simp: scan_literal_def)
  then show ?thesis by (rule match_number_shorter)
next
  case (Some vr)
  assume "scan_literal s = Some (v, r)"
  with Some have "scan_constant constants s = Some (v, r)"
    by (simp add: scan_literal_def)
  then show ?thesis
    by (rule scan_constant_shorter) (simp add: constants_def)
qed


lemma scan_bound_aux:
  "(\<forall>s. 2 * length s < n \<longrightarrow>
      scan_once n s \<noteq> Exhausted \<and>
      (\<forall>v r. scan_once n s = Scanned v r \<longrightarrow> length r < length s)) \<and>
   (\<forall>s d. 2 * length s + 1 < n \<longrightarrow>
      parse_object n s d \<noteq> Exhausted \<and>
      (\<forall>v r. parse_object n s d = Scanned v r \<longrightarrow> length r < length s)) \<and>
   (\<forall>s xs. 2 * length s + 1 < n \<longrightarrow>
      parse_array n s xs \<noteq> Exhausted \<and>
      (\<forall>v r. parse_array n s xs = Scanned v r \<longrightarrow> length r < length s))"
proof (induction n)
  case 0
  show ?case by simp
next
  case (Suc n)
  then have ihS: "\<And>s. 2 * length s < n \<Longrightarrow> scan_once n s \<noteq> Exhausted"
    and ihS': "\<And>s v r. 2 * length s < n \<Longrightarrow> scan_once n s = Scanned v r \<Longrightarrow> length r < length s"
    and ihO: "\<And>s d. 2 * length s + 1 < n \<Longrightarrow> parse_object n s d \<noteq> Exhausted"
    and ihO': "\<And>s d v r. 2 * length s + 1 < n \<Longrightarrow> parse_object n s d = Scanned v r \<Longrightarrow> length r < length s"
    and ihA: "\<And>s xs. 2 * length s + 1 < n \<Longrightarrow> parse_array n s xs \<noteq> Exhausted"
    and ihA': "\<And>s xs v r. 2 * length s + 1 < n \<Longrightarrow> parse_array n s xs = Scanned v r \<Longrightarrow> length r < length s"
    by blast+
  have S: "scan_once (Suc n) s \<noteq> Exhausted \<and>
      (\<forall>v r. scan_once (Suc n) s = Scanned v r \<longrightarrow> length r < length s)"
    if b: "2 * length s < Suc n" for s
  proof (cases s)
    case Nil
    then show ?thesis by simp
  next
    case (Cons c cs)
    let ?t = "skip_ws cs"
    have t: "length ?t \<le> length cs" by (rule skip_ws_length)
    with b Cons have tn: "2 * length ?t + 1 < n" by simp
    consider (str) "c = CHR 0x22" | (obj) "c \<noteq> CHR 0x22" "c = CHR ''{''"
      | (arr) "c \<noteq> CHR 0x22" "c \<noteq> CHR ''{''" "c = CHR ''[''"
      | (lit) "c \<noteq> CHR 0x22" "c \<noteq> CHR ''{''" "c \<noteq> CHR ''[''"
      by blast
    then show ?thesis
    proof cases
      case str
      with Cons show ?thesis
        by (auto split: option.splits dest: scanstring_shorter)
    next
      case obj
      show ?thesis
      proof (cases ?t)
        case Nil
        with obj Cons ihO [of "[]" "[]"] ihO' [of "[]" "[]"] tn show ?thesis
          by auto
      next
        case (Cons x r)
        with obj \<open>s = c # cs\<close> ihO [of ?t "[]"] ihO' [of ?t "[]"] tn t show ?thesis
          by auto
      qed
    next
      case arr
      show ?thesis
      proof (cases ?t)
        case Nil
        with arr Cons ihA [of "[]" "[]"] ihA' [of "[]" "[]"] tn show ?thesis
          by auto
      next
        case (Cons x r)
        with arr \<open>s = c # cs\<close> ihA [of ?t "[]"] ihA' [of ?t "[]"] tn t show ?thesis
          by auto
      qed
    next
      case lit
      with Cons show ?thesis
        by (auto split: option.splits dest: scan_literal_shorter)
    qed
  qed
  have O: "parse_object (Suc n) s d \<noteq> Exhausted \<and>
      (\<forall>v r. parse_object (Suc n) s d = Scanned v r \<longrightarrow> length r < length s)"
    if b: "2 * length s + 1 < Suc n" for s d
  proof (cases s)
    case Nil
    then show ?thesis by simp
  next
    case (Cons q cs)
    show ?thesis
    proof (cases "q = CHR 0x22 \<and> scanstring cs \<noteq> None")
      case False
      with Cons show ?thesis by (cases "scanstring cs") auto
    next
      case True
      then obtain key r where key: "scanstring cs = Some (key, r)" and q: "q = CHR 0x22"
        by auto
      have r: "length r < length cs" by (rule scanstring_shorter [OF key])
      show ?thesis
      proof (cases "skip_ws r")
        case Nil
        with Cons key q show ?thesis by simp
      next
        case colon: (Cons colon r1)
        have r1: "length r1 < length r"
          using skip_ws_length [of r] colon by simp
        let ?u = "skip_ws r1"
        have u: "length ?u \<le> length r1" by (rule skip_ws_length)
        with r r1 b Cons have un: "2 * length ?u < n" by simp
        show ?thesis
        proof (cases "colon = CHR '':''")
          case False
          with Cons key q colon show ?thesis by simp
        next
          case True
          show ?thesis
          proof (cases "scan_once n ?u")
            case Exhausted
            with ihS [OF un] show ?thesis by simp
          next
            case Malformed
            with Cons key q colon True show ?thesis by simp
          next
            case (Scanned v r2)
            have r2: "length r2 < length ?u" by (rule ihS' [OF un Scanned])
            show ?thesis
            proof (cases "skip_ws r2")
              case Nil
              with Cons key q colon True Scanned show ?thesis by simp
            next
              case x: (Cons x r3)
              have r3: "length r3 < length r2"
                using skip_ws_length [of r2] x by simp
              let ?w = "skip_ws r3"
              have w: "length ?w \<le> length r3" by (rule skip_ws_length)
              with r3 r2 u r1 r b Cons have wn: "2 * length ?w + 1 < n" by simp
              from w r3 r2 u r1 r Cons have ws: "length ?w < length s" by simp
              from r3 r2 u r1 r Cons have r3s: "length r3 < length s" by simp
              show ?thesis
                using Cons key q colon True Scanned x r3s ws
                  ihO [OF wn, of "dict_set d key v"] ihO' [OF wn, of "dict_set d key v"]
                by auto
            qed
          qed
        qed
      qed
    qed
  qed
  have A: "parse_array (Suc n) s xs \<noteq> Exhausted \<and>
      (\<forall>v r. parse_array (Suc n) s xs = Scanned v r \<longrightarrow> length r < length s)"
    if b: "2 * length s + 1 < Suc n" for s xs
  proof -
    from b have sn: "2 * length s < n" by simp
    show ?thesis
    proof (cases "scan_once n s")
      case Exhausted
      with ihS [OF sn] show ?thesis by simp
    next
      case Malformed
      then show ?thesis by simp
    next
      case (Scanned v r)
      have r: "length r < length s" by (rule ihS' [OF sn Scanned])
      show ?thesis
      proof (cases "skip_ws r")
        case Nil
        with Scanned show ?thesis by simp
      next
        case (Cons x r1)
        have r1: "length r1 < length r"
          using skip_ws_length [of r] Cons by simp
        let ?w = "skip_ws r1"
        have w: "length ?w \<le> length r1" by (rule skip_ws_length)
        with r1 r b have wn: "2 * length ?w + 1 < n" by simp
        from w r1 r have ws: "length ?w < length s" by simp
        from r1 r have r1s: "length r1 < length s" by simp
        show ?thesis
          using Scanned Cons r1s ws
            ihA [OF wn, of "xs @ [v]"] ihA' [OF wn, of "xs @ [v]"]
          by auto
      qed
    qed
  qed
  from S O A show ?case by blast
qed

lemma scan_bound: "scan_once (Suc (2 * length s)) (skip_ws s) \<noteq> Exhausted"
proof -
  have "2 * length (skip_ws s) < Suc (2 * length s)"
    using skip_ws_length [of s] by simp
  with scan_bound_aux [of "Suc (2 * length s)"] show ?thesis
    by blast
qed

section \<open>The search finds the span from the first opening to the last closing brace\<close>

lemma match_rest_eq:
  "match_rest cs =
     (if CHR ''}'' \<in> set cs then Some (rev (dropWhile (\<lambda>c. c \<noteq> CHR ''}'') (rev cs))) else None)"
proof (induction cs)
  case Nil
  show ?case by simp
next
  case (Cons c cs)
  show ?case
  proof (cases "CHR ''}'' \<in> set cs")
    case True
    then have "\<exists>x \<in> set (rev cs). \<not> x \<noteq> CHR ''}''" by simp
    then have "dropWhile (\<lambda>c. c \<noteq> CHR ''}'') (rev cs @ [c]) = dropWhile (\<lambda>c. c \<noteq> CHR ''}'') (rev cs) @ [c]"
      by (simp add: dropWhile_append1)
    with True Cons show ?thesis by simp
  next
    case False
    have "dropWhile (\<lambda>c. c \<noteq> CHR ''}'') (rev cs @ [c]) = dropWhile (\<lambda>c. c \<noteq> CHR ''}'') [c]"
    proof (rule dropWhile_append2)
      fix x
      assume "x \<in> set (rev cs)"
      with False show "x \<noteq> CHR ''}''" by auto
    qed
    with False Cons show ?thesis by (cases "c = CHR ''}''") simp_all
  qed
qed

lemma re_search_no_closing: "CHR ''}'' \<notin> set txt \<Longrightarrow> re_search txt = None"
  by (induction "txt") (auto simp: match_here_def match_rest_eq)

lemma re_search_eq:
  "re_search txt =
     (case dropWhile (\<lambda>c. c \<noteq> CHR ''{'') txt of
        [] \<Rightarrow> None
      | c # cs \<Rightarrow> map_option (\<lambda>m. c # m) (match_rest cs))"
proof (induction "txt")
  case Nil
  show ?case by simp
next
  case (Cons c cs)
  show ?case
  proof (cases "c = CHR ''{''")
    case True
    show ?thesis
    proof (cases "match_rest cs")
      case None
      then have "CHR ''}'' \<notin> set cs"
        by (simp add: match_rest_eq split: if_splits)
      then have "re_search cs = None" by (rule re_search_no_closing)
      with True None show ?thesis by (simp add: match_here_def)
    next
      case (Some m)
      with True show ?thesis by (simp add: match_here_def)
    qed
  next
    case False
    with Cons show ?thesis by (simp add: match_here_def)
  qed
qed


lemma dropWhile_brace:
  "dropWhile (\<lambda>c. c \<noteq> CHR ''{'') txt = c # cs \<Longrightarrow> c = CHR ''{''"
proof -
  assume d: "dropWhile (\<lambda>c. c \<noteq> CHR ''{'') txt = c # cs"
  then have "dropWhile (\<lambda>c. c \<noteq> CHR ''{'') txt \<noteq> []" by simp
  then have "\<not> hd (dropWhile (\<lambda>c. c \<noteq> CHR ''{'') txt) \<noteq> CHR ''{''" by (rule hd_dropWhile)
  with d show ?thesis by simp
qed

lemma re_search_Some:
  "re_search txt = Some span \<Longrightarrow>
     \<exists>cs. dropWhile (\<lambda>c. c \<noteq> CHR ''{'') txt = CHR ''{'' # cs \<and> CHR ''}'' \<in> set cs \<and>
          span = CHR ''{'' # rev (dropWhile (\<lambda>c. c \<noteq> CHR ''}'') (rev cs))"
proof -
  assume a: "re_search txt = Some span"
  show ?thesis
  proof (cases "dropWhile (\<lambda>c. c \<noteq> CHR ''{'') txt")
    case Nil
    with a show ?thesis unfolding re_search_eq by simp
  next
    case (Cons c cs)
    then have c: "c = CHR ''{''" by (rule dropWhile_brace)
    from a have m: "map_option (\<lambda>m. c # m) (match_rest cs) = Some span"
      unfolding re_search_eq Cons by simp
    then have "CHR ''}'' \<in> set cs"
      unfolding match_rest_eq by (simp split: if_splits)
    with m c Cons show ?thesis
      unfolding match_rest_eq by auto
  qed
qed

lemma re_search_starts: "re_search txt = Some span \<Longrightarrow> \<exists>cs. span = CHR ''{'' # cs"
  by (blast dest: re_search_Some)

lemma re_search_pair: "re_search txt = Some span \<Longrightarrow> brace_pair txt"
proof -
  let ?q = "\<lambda>c. c \<noteq> CHR ''{''"
  let ?pre = "takeWhile ?q txt"
  assume "re_search txt = Some span"
  then obtain cs where d: "dropWhile ?q txt = CHR ''{'' # cs" and cl: "CHR ''}'' \<in> set cs"
    by (blast dest: re_search_Some)
  from cl obtain k where k: "k < length cs" "cs ! k = CHR ''}''"
    by (auto simp: in_set_conv_nth)
  have "txt = ?pre @ dropWhile ?q txt" by simp
  with d have split: "txt = ?pre @ CHR ''{'' # cs" by simp
  have "(?pre @ CHR ''{'' # cs) ! length ?pre = CHR ''{''" by simp
  then have a: "txt ! length ?pre = CHR ''{''" using split by simp
  have "(?pre @ CHR ''{'' # cs) ! (length ?pre + Suc k) = CHR ''}''"
    using k by (simp add: nth_append)
  then have b: "txt ! (length ?pre + Suc k) = CHR ''}''" using split by simp
  have "length (?pre @ CHR ''{'' # cs) = length ?pre + Suc (length cs)" by simp
  then have "length txt = length ?pre + Suc (length cs)" using split by simp
  with k have c: "length ?pre + Suc k < length txt" by simp
  have "length ?pre < length ?pre + Suc k" by simp
  with a b c show ?thesis unfolding brace_pair_def by blast
qed

lemma brace_pair_re_search: "brace_pair txt \<Longrightarrow> re_search txt \<noteq> None"
proof -
  let ?q = "\<lambda>c. c \<noteq> CHR ''{''"
  let ?pre = "takeWhile ?q txt"
  assume "brace_pair txt"
  then obtain i j where ij: "i < j" "j < length txt" "txt ! i = CHR ''{''" "txt ! j = CHR ''}''"
    unfolding brace_pair_def by blast
  have "length ?pre \<le> i"
  proof (rule ccontr)
    assume "\<not> length ?pre \<le> i"
    then have il: "i < length ?pre" by simp
    then have "?pre ! i = txt ! i" by (rule takeWhile_nth)
    moreover from il have "?pre ! i \<in> set ?pre" by simp
    then have "?q (?pre ! i)" by (rule set_takeWhileD [THEN conjunct2])
    ultimately show False using ij by simp
  qed
  have dr: "dropWhile ?q txt = drop (length ?pre) txt" by (rule dropWhile_eq_drop)
  have "length ?pre < length txt" using \<open>length ?pre \<le> i\<close> ij by simp
  then obtain c cs where d: "dropWhile ?q txt = c # cs"
    unfolding dr by (cases "drop (length ?pre) txt") auto
  have "(c # cs) ! (j - length ?pre) = txt ! j"
    using d [symmetric] dr \<open>length ?pre \<le> i\<close> ij by simp
  moreover have "0 < j - length ?pre" using \<open>length ?pre \<le> i\<close> ij by simp
  ultimately have "cs ! (j - length ?pre - 1) = CHR ''}''" using ij by (simp add: nth_Cons')
  moreover have "length (c # cs) = length txt - length ?pre" using d [symmetric] dr by simp
  then have "j - length ?pre - 1 < length cs" using ij \<open>length ?pre \<le> i\<close> by simp
  ultimately have "CHR ''}'' \<in> set cs" by (metis nth_mem)
  then show ?thesis unfolding re_search_eq d match_rest_eq by simp
qed

section \<open>A text that starts with a brace decodes to a dict\<close>

lemma parse_object_JObj: "parse_object n s d = Scanned v r \<Longrightarrow> \<exists>d'. v = JObj d'"
proof (induction n arbitrary: s d)
  case 0
  then show ?case by simp
next
  case (Suc n)
  note res = Suc.prems
  show ?case
  proof (cases s)
    case Nil
    with res show ?thesis by simp
  next
    case (Cons q cs)
    show ?thesis
    proof (cases "scanstring cs")
      case None
      with res Cons show ?thesis by (simp split: if_splits)
    next
      case (Some kr)
      obtain key r0 where kr: "kr = (key, r0)" by (cases kr)
      show ?thesis
      proof (cases "skip_ws r0")
        case Nil
        with res Cons Some kr show ?thesis by (simp split: if_splits)
      next
        case colon: (Cons colon r1)
        show ?thesis
        proof (cases "scan_once n (skip_ws r1)")
          case Exhausted
          with res Cons Some kr colon show ?thesis by (simp split: if_splits)
        next
          case Malformed
          with res Cons Some kr colon show ?thesis by (simp split: if_splits)
        next
          case (Scanned w r2)
          show ?thesis
          proof (cases "skip_ws r2")
            case Nil
            with res Cons Some kr colon Scanned show ?thesis by (simp split: if_splits)
          next
            case x: (Cons x r3)
            consider (close) "x = CHR ''}''" | (comma) "x \<noteq> CHR ''}''" "x = CHR '',''"
              | (other) "x \<noteq> CHR ''}''" "x \<noteq> CHR '',''"
              by blast
            then show ?thesis
            proof cases
              case close
              with res Cons Some kr colon Scanned x show ?thesis by (auto split: if_splits)
            next
              case comma
              with res Cons Some kr colon Scanned x
              have "parse_object n (skip_ws r3) (dict_set d key w) = Scanned v r"
                by (simp split: if_splits)
              then show ?thesis by (rule Suc.IH)
            next
              case other
              with res Cons Some kr colon Scanned x show ?thesis by (simp split: if_splits)
            qed
          qed
        qed
      qed
    qed
  qed
qed

lemma scan_once_object:
  "scan_once n (CHR ''{'' # cs) = Scanned v r \<Longrightarrow> \<exists>d. v = JObj d"
proof (cases n)
  case 0
  assume "scan_once n (CHR ''{'' # cs) = Scanned v r"
  with 0 show ?thesis by simp
next
  case (Suc m)
  assume a: "scan_once n (CHR ''{'' # cs) = Scanned v r"
  show ?thesis
  proof (cases "skip_ws cs")
    case Nil
    with a Suc have "parse_object m [] [] = Scanned v r" by simp
    then show ?thesis by (rule parse_object_JObj)
  next
    case (Cons x t)
    show ?thesis
    proof (cases "x = CHR ''}''")
      case True
      with a Suc Cons show ?thesis by auto
    next
      case False
      with a Suc Cons have "parse_object m (x # t) [] = Scanned v r" by simp
      then show ?thesis by (rule parse_object_JObj)
    qed
  qed
qed

lemma json_loads_object:
  "json_loads (CHR ''{'' # cs) = Some v \<Longrightarrow> \<exists>d. v = JObj d"
proof -
  assume a: "json_loads (CHR ''{'' # cs) = Some v"
  have sk: "skip_ws (CHR ''{'' # cs) = CHR ''{'' # cs"
    by (simp add: skip_ws_def is_ws_def)
  from a obtain r where "scan_once (Suc (2 * length (CHR ''{'' # cs))) (CHR ''{'' # cs) = Scanned v r"
    unfolding json_loads_def sk by (auto split: scanned.splits if_splits)
  then show ?thesis by (rule scan_once_object)
qed

section \<open>Loading the configuration\<close>










section \<open>Entering the loop with \<open>/chat\<close>\<close>





section \<open>The request\<close>








section \<open>The history\<close>

text \<open>What one turn does to the history and to the control point.\<close>

lemma raise_in_turn_shape:
  "history (raise_in_turn e s) = history s \<and> ctl (raise_in_turn e s) \<noteq> SEND_TO_MODEL"
  by (simp add: raise_in_turn_def break_inner_def say_def)

lemma apply_tool_result_shape:
  "history (apply_tool_result r s) =
     history s @ [\<lparr>role = User, content = JStr (''TOOL_RESULT: '' @ r)\<rparr>]
   \<and> ctl (apply_tool_result r s) = SEND_TO_MODEL"
  by (simp add: apply_tool_result_def append_message_def say_def)

lemma dispatch_shape:
  "(history (dispatch os t a s) = history s \<and> ctl (dispatch os t a s) \<noteq> SEND_TO_MODEL)
   \<or> (\<exists>r. history (dispatch os t a s) = history s @ [\<lparr>role = User, content = JStr r\<rparr>]
          \<and> ctl (dispatch os t a s) = SEND_TO_MODEL)"
  by (auto simp: dispatch_def apply_tool_result_shape break_inner_def say_def split: prod.splits)

lemma run_action_shape:
  "(history (run_action os act s) = history s \<and> ctl (run_action os act s) \<noteq> SEND_TO_MODEL)
   \<or> (\<exists>r. history (run_action os act s) = history s @ [\<lparr>role = User, content = JStr r\<rparr>]
          \<and> ctl (run_action os act s) = SEND_TO_MODEL)"
proof (cases "py_get act ''tool'' JNull")
  case (Inl e)
  then show ?thesis by (simp add: run_action_def raise_in_turn_shape)
next
  case tool: (Inr tool_name)
  show ?thesis
  proof (cases "py_get act ''args'' (JObj [])")
    case (Inl e)
    with tool show ?thesis by (simp add: run_action_def raise_in_turn_shape)
  next
    case (Inr args)
    show ?thesis
    proof (cases args)
      case (JObj a)
      have "history (say (CallingTool tool_name a) s) = history s"
        by (simp add: say_def)
      with dispatch_shape [of os tool_name a "say (CallingTool tool_name a) s"] tool Inr JObj
      show ?thesis by (simp add: run_action_def)
    qed (use tool Inr in \<open>simp_all add: run_action_def raise_in_turn_shape\<close>)
  qed
qed

lemma parse_reply_shape:
  "(history (parse_reply os reply s) = history s \<and> ctl (parse_reply os reply s) \<noteq> SEND_TO_MODEL)
   \<or> (\<exists>r. history (parse_reply os reply s) = history s @ [\<lparr>role = User, content = JStr r\<rparr>]
          \<and> ctl (parse_reply os reply s) = SEND_TO_MODEL)"
proof (cases reply)
  case (JStr t)
  show ?thesis
  proof (cases "re_search t")
    case None
    with JStr show ?thesis by (simp add: parse_reply_def break_inner_def say_def)
  next
    case (Some span)
    show ?thesis
    proof (cases "json_loads span")
      case None
      with JStr Some show ?thesis by (simp add: parse_reply_def break_inner_def say_def)
    next
      case (Some act)
      with JStr \<open>re_search t = Some span\<close> run_action_shape [of os act s]
      show ?thesis by (simp add: parse_reply_def)
    qed
  qed
qed (simp_all add: parse_reply_def raise_in_turn_shape)

lemma model_turn_failed:
  "turn_fails os remote s \<Longrightarrow>
     history (model_turn os remote s) = history s \<and> ctl (model_turn os remote s) \<noteq> SEND_TO_MODEL"
  by (auto simp: turn_fails_def model_turn_def raise_in_turn_shape break_inner_def say_def
           split: http.splits sum.splits)

lemma model_turn_ok:
  assumes "\<not> turn_fails os remote s"
  shows "\<exists>reply.
    (history (model_turn os remote s) = history s @ [\<lparr>role = Assistant, content = reply\<rparr>]
       \<and> ctl (model_turn os remote s) \<noteq> SEND_TO_MODEL)
    \<or> (\<exists>r. history (model_turn os remote s) =
              history s @ [\<lparr>role = Assistant, content = reply\<rparr>, \<lparr>role = User, content = JStr r\<rparr>]
          \<and> ctl (model_turn os remote s) = SEND_TO_MODEL)"
proof -
  from assms obtain response_json reply
    where a: "remote (chat_request os s) = Response response_json"
      and b: "response_text (provider s) response_json = Inr reply"
    by (auto simp: turn_fails_def split: http.splits sum.splits)
  let ?s = "append_message Assistant reply s"
  have h: "history ?s = history s @ [\<lparr>role = Assistant, content = reply\<rparr>]"
    by (simp add: append_message_def)
  have m: "model_turn os remote s = parse_reply os reply ?s"
    using a b by (simp add: model_turn_def)
  from parse_reply_shape [of os reply ?s] show ?thesis
    unfolding m h by auto
qed

lemma model_turn_appends:
  "\<exists>ms. history (model_turn os remote s) = history s @ ms \<and> (\<forall>m \<in> set ms. role m \<noteq> System)"
proof (cases "turn_fails os remote s")
  case True
  from model_turn_failed [OF this] show ?thesis by simp
next
  case False
  from model_turn_ok [OF this] show ?thesis by auto
qed

lemma user_turn_shape:
  "(history (user_turn line s) = history s \<and> (ctl (user_turn line s) = ctl s \<or> ctl (user_turn line s) = EXITED))
   \<or> (history (user_turn line s) = history s @ [\<lparr>role = User, content = JStr line\<rparr>]
       \<and> ctl (user_turn line s) = SEND_TO_MODEL)"
  by (simp add: user_turn_def append_message_def)

lemma step_appends:
  "\<exists>ms. history (step s ev) = history s @ ms \<and> (\<forall>m \<in> set ms. role m \<noteq> System)"
proof (cases ev)
  case (UserInput line)
  with user_turn_shape [of line s] show ?thesis
    by (auto simp: step_def)
next
  case (ModelReply os remote)
  with model_turn_appends [of os remote s] show ?thesis
    by (auto simp: step_def)
qed

lemma run_appends:
  "\<exists>ms. history (run s evs) = history s @ ms \<and> (\<forall>m \<in> set ms. role m \<noteq> System)"
proof (induction evs arbitrary: s)
  case Nil
  show ?case by (simp add: run_def)
next
  case (Cons ev evs)
  from step_appends [of s ev] obtain ms where
    a: "history (step s ev) = history s @ ms" and b: "\<forall>m \<in> set ms. role m \<noteq> System"
    by blast
  from Cons.IH [of "step s ev"] obtain ms' where
    c: "history (run (step s ev) evs) = history (step s ev) @ ms'" and d: "\<forall>m \<in> set ms'. role m \<noteq> System"
    by blast
  have "run s (ev # evs) = run (step s ev) evs" by (simp add: run_def)
  with a b c d have "history (run s (ev # evs)) = history s @ (ms @ ms')
      \<and> (\<forall>m \<in> set (ms @ ms'). role m \<noteq> System)"
    by auto
  then show ?case by blast
qed

lemma run_append: "run s (evs @ later) = run (run s evs) later"
  by (simp add: run_def)


lemma answers_follow_snoc:
  "answers_follow (rs @ [r]) \<longleftrightarrow>
     answers_follow rs \<and> (r = Assistant \<longrightarrow> rs \<noteq> [] \<longrightarrow> last rs = User)"
  by (induction rs rule: answers_follow.induct) auto

lemma alternating_snoc_user:
  "alternating rs \<Longrightarrow> even (length rs) \<Longrightarrow> alternating (rs @ [User])"
  by (induction rs rule: alternating.induct) auto

lemma alternating_snoc_assistant:
  "alternating rs \<Longrightarrow> odd (length rs) \<Longrightarrow> alternating (rs @ [Assistant])"
  by (induction rs rule: alternating.induct) auto

text \<open>Assistant messages follow user messages: an invariant of every step.\<close>

lemma step_answers_follow:
  assumes "history s \<noteq> []"
    and "answers_follow (map role (history s))"
    and "ctl s = SEND_TO_MODEL \<longrightarrow> role (last (history s)) = User"
  shows "history (step s ev) \<noteq> []
    \<and> answers_follow (map role (history (step s ev)))
    \<and> (ctl (step s ev) = SEND_TO_MODEL \<longrightarrow> role (last (history (step s ev))) = User)"
proof (cases ev)
  case (UserInput line)
  show ?thesis
  proof (cases "ctl s = AWAIT_USER_INPUT")
    case True
    with UserInput user_turn_shape [of line s] assms show ?thesis
      by (auto simp: step_def answers_follow_snoc)
  next
    case False
    with UserInput assms show ?thesis by (simp add: step_def)
  qed
next
  case (ModelReply os remote)
  show ?thesis
  proof (cases "ctl s = SEND_TO_MODEL")
    case False
    with ModelReply assms show ?thesis by (simp add: step_def)
  next
    case True
    with assms have u: "role (last (history s)) = User" by simp
    from assms(1) have l: "last (map role (history s)) = role (last (history s))"
      by (simp add: last_map)
    have st: "step s ev = model_turn os remote s"
      using ModelReply True by (simp add: step_def)
    show ?thesis
    proof (cases "turn_fails os remote s")
      case True
      from model_turn_failed [OF this] assms show ?thesis
        unfolding st by simp
    next
      case False
      from model_turn_ok [OF this] obtain reply where
        "(history (model_turn os remote s) = history s @ [\<lparr>role = Assistant, content = reply\<rparr>]
           \<and> ctl (model_turn os remote s) \<noteq> SEND_TO_MODEL)
         \<or> (\<exists>r. history (model_turn os remote s) =
              history s @ [\<lparr>role = Assistant, content = reply\<rparr>, \<lparr>role = User, content = JStr r\<rparr>]
            \<and> ctl (model_turn os remote s) = SEND_TO_MODEL)"
        by blast
      then show ?thesis
      proof
        assume a: "history (model_turn os remote s) = history s @ [\<lparr>role = Assistant, content = reply\<rparr>]
           \<and> ctl (model_turn os remote s) \<noteq> SEND_TO_MODEL"
        with assms u l show ?thesis
          unfolding st by (simp add: answers_follow_snoc)
      next
        assume "\<exists>r. history (model_turn os remote s) =
              history s @ [\<lparr>role = Assistant, content = reply\<rparr>, \<lparr>role = User, content = JStr r\<rparr>]
            \<and> ctl (model_turn os remote s) = SEND_TO_MODEL"
        then obtain r where a: "history (model_turn os remote s) =
              (history s @ [\<lparr>role = Assistant, content = reply\<rparr>]) @ [\<lparr>role = User, content = JStr r\<rparr>]"
          by auto
        have "answers_follow (map role (history s @ [\<lparr>role = Assistant, content = reply\<rparr>]))"
          using assms u l by (simp add: answers_follow_snoc)
        then have "answers_follow (map role ((history s @ [\<lparr>role = Assistant, content = reply\<rparr>])
            @ [\<lparr>role = User, content = JStr r\<rparr>]))"
          by (simp only: map_append list.map message.simps answers_follow_snoc) simp
        with a show ?thesis
          unfolding st by simp
      qed
    qed
  qed
qed

lemma run_answers_follow:
  "history s \<noteq> [] \<Longrightarrow> answers_follow (map role (history s)) \<Longrightarrow>
   (ctl s = SEND_TO_MODEL \<longrightarrow> role (last (history s)) = User) \<Longrightarrow>
   answers_follow (map role (history (run s evs)))
   \<and> (ctl (run s evs) = SEND_TO_MODEL \<longrightarrow> role (last (history (run s evs))) = User)"
proof (induction evs arbitrary: s)
  case Nil
  then show ?case by (simp add: run_def)
next
  case (Cons ev evs)
  from step_answers_follow [OF Cons.prems, of ev]
  have "answers_follow (map role (history (run (step s ev) evs)))
     \<and> (ctl (run (step s ev) evs) = SEND_TO_MODEL \<longrightarrow>
          role (last (history (run (step s ev) evs))) = User)"
    by (intro Cons.IH) simp_all
  then show ?case by (simp add: run_def)
qed

text \<open>The alternation: an invariant of every step that does not fail.\<close>

lemma step_in_step:
  assumes "in_step s" and "\<not> failed s ev"
  shows "in_step (step s ev)"
proof -
  from assms(1) obtain m rest where h: "history s = m # rest" and sys: "role m = System"
    and aw: "ctl s = AWAIT_USER_INPUT \<longrightarrow> alternating (map role rest) \<and> even (length rest)"
    and se: "ctl s = SEND_TO_MODEL \<longrightarrow> alternating (map role rest) \<and> odd (length rest)"
    unfolding in_step_def by blast
  show ?thesis
  proof (cases ev)
    case (UserInput line)
    show ?thesis
    proof (cases "ctl s = AWAIT_USER_INPUT")
      case False
      with UserInput assms(1) show ?thesis by (simp add: step_def)
    next
      case True
      with aw have alt: "alternating (map role rest)" and ev: "even (length rest)" by simp_all
      have st: "step s ev = user_turn line s" using UserInput True by (simp add: step_def)
      from user_turn_shape [of line s] show ?thesis
      proof
        assume "history (user_turn line s) = history s
            \<and> (ctl (user_turn line s) = ctl s \<or> ctl (user_turn line s) = EXITED)"
        with h sys alt ev True show ?thesis
          unfolding st in_step_def by auto
      next
        assume a: "history (user_turn line s) = history s @ [\<lparr>role = User, content = JStr line\<rparr>]
            \<and> ctl (user_turn line s) = SEND_TO_MODEL"
        have "alternating (map role (rest @ [\<lparr>role = User, content = JStr line\<rparr>]))"
          using alternating_snoc_user [of "map role rest"] alt ev by simp
        with a h sys ev show ?thesis
          unfolding st in_step_def by simp
      qed
    qed
  next
    case (ModelReply os remote)
    show ?thesis
    proof (cases "ctl s = SEND_TO_MODEL")
      case False
      with ModelReply assms(1) show ?thesis by (simp add: step_def)
    next
      case True
      with se have alt: "alternating (map role rest)" and od: "odd (length rest)" by simp_all
      have st: "step s ev = model_turn os remote s" using ModelReply True by (simp add: step_def)
      from assms(2) ModelReply True have "\<not> turn_fails os remote s"
        by (simp add: failed_def)
      from model_turn_ok [OF this] obtain reply where
        c: "(history (model_turn os remote s) = history s @ [\<lparr>role = Assistant, content = reply\<rparr>]
           \<and> ctl (model_turn os remote s) \<noteq> SEND_TO_MODEL)
         \<or> (\<exists>r. history (model_turn os remote s) =
              history s @ [\<lparr>role = Assistant, content = reply\<rparr>, \<lparr>role = User, content = JStr r\<rparr>]
            \<and> ctl (model_turn os remote s) = SEND_TO_MODEL)"
        by blast
      have a1: "alternating (map role rest @ [Assistant])"
        using alternating_snoc_assistant [OF alt] od by simp
      have a2: "alternating ((map role rest @ [Assistant]) @ [User])"
        using alternating_snoc_user [OF a1] od by simp
      from c show ?thesis
      proof
        assume "history (model_turn os remote s) = history s @ [\<lparr>role = Assistant, content = reply\<rparr>]
           \<and> ctl (model_turn os remote s) \<noteq> SEND_TO_MODEL"
        with h sys a1 od show ?thesis
          unfolding st in_step_def by simp
      next
        assume "\<exists>r. history (model_turn os remote s) =
              history s @ [\<lparr>role = Assistant, content = reply\<rparr>, \<lparr>role = User, content = JStr r\<rparr>]
            \<and> ctl (model_turn os remote s) = SEND_TO_MODEL"
        with h sys a2 od show ?thesis
          unfolding st in_step_def by auto
      qed
    qed
  qed
qed

lemma run_in_step: "in_step s \<Longrightarrow> error_free s evs \<Longrightarrow> in_step (run s evs)"
proof (induction evs arbitrary: s)
  case Nil
  then show ?case by (simp add: run_def)
next
  case (Cons ev evs)
  from Cons.prems have "in_step (step s ev)" and "error_free (step s ev) evs"
    by (simp_all add: step_in_step)
  then have "in_step (run (step s ev) evs)" by (rule Cons.IH)
  then show ?case by (simp add: run_def)
qed

lemma in_step_well_formed:
  "in_step s \<Longrightarrow> ctl s = AWAIT_USER_INPUT \<or> ctl s = SEND_TO_MODEL \<Longrightarrow> well_formed (history s)"
  unfolding in_step_def well_formed_def by auto

text \<open>
  C2.  The claim says the history alternates user and assistant after the system message
  at every point where the loop waits, whatever transport errors occurred.  After a
  request that fails with a transport error the loop returns to the user prompt with the
  user message still in the history; the next line typed is appended after it, so two
  user messages are adjacent while the loop awaits the model's reply.
\<close>

theorem transport_error_counterexample:
  "history after_timeout =
     [\<lparr>role = System, content = JStr SYSTEM_PROMPT\<rparr>,
      \<lparr>role = User, content = JStr ''first''\<rparr>,
      \<lparr>role = User, content = JStr ''again''\<rparr>]
   \<and> ctl after_timeout = SEND_TO_MODEL
   \<and> \<not> well_formed (history after_timeout)"
proof -
  have l1: "lower ''first'' = ''first''" and l2: "lower ''again'' = ''again''" by code_simp+
  have h: "history after_timeout =
     [\<lparr>role = System, content = JStr SYSTEM_PROMPT\<rparr>,
      \<lparr>role = User, content = JStr ''first''\<rparr>,
      \<lparr>role = User, content = JStr ''again''\<rparr>]"
    and c: "ctl after_timeout = SEND_TO_MODEL"
    by (simp_all del: lower.simps add: after_timeout_def run_def step_def user_turn_def l1 l2
        model_turn_def break_inner_def say_def append_message_def sample_session_def)
  from h have "\<not> well_formed (history after_timeout)"
    by (simp add: well_formed_def)
  with h c show ?thesis by simp
qed

text \<open>
  C2, amended.  From the state in which \<open>/chat\<close> enters the loop and for every sequence
  of events: the history begins with the system message and holds no other system
  message; it only grows (the history at any point is a prefix of the history at any
  later point); every assistant message comes directly after a user message, and the last
  message is a user message whenever a reply of the model is awaited.  As long as no
  transport or response-shape error has occurred, the roles after the system message
  alternate user, assistant, user, and so on, at every point where the loop awaits user
  input or a model reply, however many tool calls occurred.
\<close>

theorem history_invariants:
  assumes "history s0 = [\<lparr>role = System, content = JStr SYSTEM_PROMPT\<rparr>]"
    and "ctl s0 = AWAIT_USER_INPUT"
  shows "(\<exists>rest. history (run s0 evs) = \<lparr>role = System, content = JStr SYSTEM_PROMPT\<rparr> # rest
            \<and> (\<forall>m \<in> set rest. role m \<noteq> System))
       \<and> prefix (history (run s0 evs)) (history (run s0 (evs @ later)))
       \<and> answers_follow (map role (history (run s0 evs)))
       \<and> (ctl (run s0 evs) = SEND_TO_MODEL \<longrightarrow> role (last (history (run s0 evs))) = User)
       \<and> (error_free s0 evs \<longrightarrow>
            ctl (run s0 evs) = AWAIT_USER_INPUT \<or> ctl (run s0 evs) = SEND_TO_MODEL \<longrightarrow>
            well_formed (history (run s0 evs)))"
proof (intro conjI impI)
  from run_appends [of s0 evs] assms(1)
  show "\<exists>rest. history (run s0 evs) = \<lparr>role = System, content = JStr SYSTEM_PROMPT\<rparr> # rest
            \<and> (\<forall>m \<in> set rest. role m \<noteq> System)"
    by auto
next
  from run_appends [of "run s0 evs" later]
  show "prefix (history (run s0 evs)) (history (run s0 (evs @ later)))"
    unfolding run_append by (auto simp: prefix_def)
next
  have a: "history s0 \<noteq> []" and b: "answers_follow (map role (history s0))"
    and c: "ctl s0 = SEND_TO_MODEL \<longrightarrow> role (last (history s0)) = User"
    using assms by simp_all
  from run_answers_follow [OF a b c, of evs]
  show "answers_follow (map role (history (run s0 evs)))" by blast
  assume "ctl (run s0 evs) = SEND_TO_MODEL"
  with run_answers_follow [OF a b c, of evs]
  show "role (last (history (run s0 evs))) = User" by blast
next
  assume e: "error_free s0 evs"
    and w: "ctl (run s0 evs) = AWAIT_USER_INPUT \<or> ctl (run s0 evs) = SEND_TO_MODEL"
  from assms have "in_step s0" by (simp add: in_step_def)
  then have "in_step (run s0 evs)" using e by (rule run_in_step)
  then show "well_formed (history (run s0 evs))" using w by (rule in_step_well_formed)
qed

theorem history_invariants_witness:
  "history sample_session = [\<lparr>role = System, content = JStr SYSTEM_PROMPT\<rparr>]
   \<and> ctl sample_session = AWAIT_USER_INPUT
   \<and> error_free sample_session [UserInput ''first'', ModelReply quiet_os (answers bogus_reply)]
   \<and> ctl after_tool_call = SEND_TO_MODEL
   \<and> map role (history after_tool_call) = [System, User, Assistant, User]
   \<and> well_formed (history after_tool_call)
   \<and> answers_follow (map role (history after_tool_call))"
proof -
  let ?evs = "[UserInput ''first'', ModelReply quiet_os (answers bogus_reply)]"
  have l1: "lower ''first'' = ''first''" by code_simp
  have dec: "json_loads bogus_reply = Some (JObj [(''tool'', JStr ''bogus'')])"
    by code_simp
  have search: "re_search bogus_reply = Some bogus_reply"
    by code_simp
  have a: "history sample_session = [\<lparr>role = System, content = JStr SYSTEM_PROMPT\<rparr>]"
    and b: "ctl sample_session = AWAIT_USER_INPUT"
    by (simp_all add: sample_session_def)
  have e: "error_free sample_session ?evs"
    by (simp del: lower.simps add: failed_def turn_fails_def step_def user_turn_def l1 answers_def
        response_text_def attempt_def py_item_def py_item0_def append_message_def
        sample_session_def)
  have c: "ctl after_tool_call = SEND_TO_MODEL"
    and r: "map role (history after_tool_call) = [System, User, Assistant, User]"
    by (simp_all del: lower.simps re_search.simps
        add: after_tool_call_def run_def step_def user_turn_def l1 model_turn_def answers_def
        response_text_def attempt_def py_item_def py_item0_def parse_reply_def search dec
        run_action_def py_get_def dispatch_def apply_tool_result_def say_def append_message_def
        sample_session_def)
  from history_invariants [OF a b, of ?evs "[]"] e c
  have "well_formed (history after_tool_call) \<and> answers_follow (map role (history after_tool_call))"
    unfolding after_tool_call_def by blast
  with a b e c r show ?thesis by blast
qed

section \<open>The Action Parser\<close>



text \<open>
  C4.  When the reply contains no opening brace followed by a closing brace, the search
  finds nothing, and the turn appends the reply as the assistant message, shows it as it
  is, and returns to the user prompt: no error is reported and nothing is raised.
\<close>

theorem no_brace_pair_plain_reply:
  assumes "\<not> brace_pair txt"
    and "remote (chat_request os s) = Response response_json"
    and "response_text (provider s) response_json = Inr (JStr txt)"
  shows "re_search txt = None \<and>
    model_turn os remote s =
      s\<lparr>history := history s @ [\<lparr>role = Assistant, content = JStr txt\<rparr>],
        console := console s @ [Markdown txt],
        ctl := AWAIT_USER_INPUT\<rparr>"
proof -
  from assms(1) have none: "re_search txt = None"
    by (cases "re_search txt") (auto dest: re_search_pair)
  with assms(2,3) show ?thesis
    by (simp add: model_turn_def parse_reply_def append_message_def break_inner_def say_def)
qed

theorem no_brace_pair_plain_reply_witness:
  "\<not> brace_pair ''} hello {'' \<and>
   model_turn quiet_os (answers ''} hello {'') sample_session =
     sample_session
       \<lparr>history := history sample_session @ [\<lparr>role = Assistant, content = JStr ''} hello {''\<rparr>],
        console := console sample_session @ [Markdown ''} hello {''],
        ctl := AWAIT_USER_INPUT\<rparr>"
proof -
  have "re_search ''} hello {'' = None" by code_simp
  then have a: "\<not> brace_pair ''} hello {''"
    by (blast dest: brace_pair_re_search)
  have b: "answers ''} hello {'' (chat_request quiet_os sample_session) =
      Response (JObj [(''choices'', JArr [JObj [(''message'', JObj [(''content'', JStr ''} hello {'')])]])])"
    by (simp add: answers_def)
  have c: "response_text (provider sample_session)
      (JObj [(''choices'', JArr [JObj [(''message'', JObj [(''content'', JStr ''} hello {'')])]])]) =
      Inr (JStr ''} hello {'')"
    by (simp add: response_text_def sample_session_def attempt_def py_item_def py_item0_def)
  from no_brace_pair_plain_reply
         [where remote = "answers ''} hello {''" and os = quiet_os and s = sample_session, OF a b c] a
  show ?thesis
    by simp
qed

text \<open>
  C10.  Whenever the span found by the search decodes, the decoded value is a dict, so the
  two lookups of the dispatch (\<open>action.get("tool")\<close> and \<open>action.get("args", {})\<close>)
  return a value and never raise.
\<close>

theorem decoded_span_is_mapping:
  assumes "re_search txt = Some span" and "json_loads span = Some action"
  shows "\<exists>d. action = JObj d \<and>
    py_get action ''tool'' JNull = Inr (dict_get d ''tool'' JNull) \<and>
    py_get action ''args'' (JObj []) = Inr (dict_get d ''args'' (JObj []))"
proof -
  from assms(1) obtain cs where "span = CHR ''{'' # cs"
    by (blast dest: re_search_starts)
  with assms(2) obtain d where "action = JObj d"
    by (blast dest: json_loads_object)
  then show ?thesis
    by (simp add: py_get_def dict_get_def split: option.splits)
qed

theorem decoded_span_is_mapping_witness:
  "re_search prose_reply = Some bogus_reply \<and>
   json_loads bogus_reply = Some (JObj [(''tool'', JStr ''bogus'')]) \<and>
   py_get (JObj [(''tool'', JStr ''bogus'')]) ''tool'' JNull = Inr (JStr ''bogus'') \<and>
   py_get (JObj [(''tool'', JStr ''bogus'')]) ''args'' (JObj []) = Inr (JObj [])"
proof -
  have a: "re_search prose_reply = Some bogus_reply" by code_simp
  have b: "json_loads bogus_reply = Some (JObj [(''tool'', JStr ''bogus'')])" by code_simp
  from decoded_span_is_mapping [OF a b] a b show ?thesis
    by (simp add: dict_get_def)
qed

section \<open>An unknown tool\<close>




section \<open>Writing a file\<close>



section \<open>The shell executor\<close>

text \<open>
  C7.  For every command, \<open>agent_execute_shell\<close> returns a text: when launching raises, the
  error text followed by the exception; when both streams are empty, the fixed text for
  no output; otherwise the \<open>STDOUT:\<close> block if standard output is not empty, followed by
  the \<open>STDERR:\<close> block if standard error is not empty.  No outcome of the call is left
  without a result, so nothing is raised.
\<close>

theorem execute_shell_result:
  "fst (agent_execute_shell os fs command) =
     (case fst (subprocess_run os fs command) of
        Inl e \<Rightarrow> SHELL_ERROR @ e
      | Inr (out, err) \<Rightarrow>
          if out = [] \<and> err = [] then NO_OUTPUT
          else (if out = [] then [] else ''STDOUT:'' @ NL @ out @ NL) @
               (if err = [] then [] else ''STDERR:'' @ NL @ err @ NL))"
  by (simp add: agent_execute_shell_def Let_def split: prod.splits sum.splits)

theorem execute_shell_result_witness:
  "fst (agent_execute_shell echo_os Map.empty (JStr ''echo hi'')) = ''STDOUT:'' @ NL @ ''hi'' @ NL @ NL
   \<and> fst (agent_execute_shell echo_os Map.empty (JStr [])) = SHELL_ERROR @ ''cannot launch''
   \<and> fst (agent_execute_shell quiet_os Map.empty (JStr [])) = NO_OUTPUT"
  using execute_shell_result [of echo_os Map.empty "JStr ''echo hi''"]
    execute_shell_result [of echo_os Map.empty "JStr []"]
    execute_shell_result [of quiet_os Map.empty "JStr []"]
  by (simp add: echo_os_def quiet_os_def)

end
